theory Spec2Isabelle
  imports Main "HOL-Library.Sublist"
begin

section \<open>Go strings and the library functions the server calls\<close>

text \<open>
  A Go string is a sequence of bytes, here a \<open>string\<close> (a list of 8-bit \<open>char\<close>s).
  The server calls \<open>strings.TrimSpace\<close>, \<open>strings.HasPrefix\<close>, \<open>strings.SplitN\<close>,
  \<open>strings.ToLower\<close>, \<open>strings.ReplaceAll\<close> and \<open>fmt.Sprintf\<close> of Go's standard library;
  they are modelled on bytes, as the library works.
\<close>

subsection \<open>strings.TrimSpace\<close>

text \<open>
  \<open>TrimSpace\<close> removes the leading and the trailing runes for which \<open>unicode.IsSpace\<close>
  holds: the code points of Unicode's White_Space property. A rune is read from the
  bytes by UTF-8 decoding, and an invalid sequence decodes to U+FFFD (width 1), which is no
  space; so a leading (trailing) white-space rune is there exactly when one of the UTF-8
  encodings below is a prefix (suffix) of the string.
\<close>

definition asciiSpace :: "string" where
  \<comment> \<open>'\t', '\n', '\v', '\f', '\r', ' '\<close>
  "asciiSpace = [CHR 0x09, CHR 0x0A, CHR 0x0B, CHR 0x0C, CHR 0x0D, CHR 0x20]"

definition whiteSpace :: "string list" where
  \<comment> \<open>U+0009..U+000D, U+0020, U+0085, U+00A0, U+1680, U+2000..U+200A, U+2028, U+2029,
      U+202F, U+205F, U+3000, each in UTF-8\<close>
  "whiteSpace =
     map (\<lambda>c. [c]) asciiSpace @
     [[CHR 0xC2, CHR 0x85], [CHR 0xC2, CHR 0xA0], [CHR 0xE1, CHR 0x9A, CHR 0x80]] @
     map (\<lambda>c. [CHR 0xE2, CHR 0x80, c])
       [CHR 0x80, CHR 0x81, CHR 0x82, CHR 0x83, CHR 0x84, CHR 0x85, CHR 0x86, CHR 0x87,
        CHR 0x88, CHR 0x89, CHR 0x8A, CHR 0xA8, CHR 0xA9, CHR 0xAF] @
     [[CHR 0xE2, CHR 0x81, CHR 0x9F], [CHR 0xE3, CHR 0x80, CHR 0x80]]"

function trimPrefixes :: "string list \<Rightarrow> string \<Rightarrow> string" where
  "trimPrefixes T s =
     (case find (\<lambda>e. e \<noteq> [] \<and> prefix e s) T of
        None \<Rightarrow> s
      | Some e \<Rightarrow> trimPrefixes T (drop (length e) s))"
  by pat_completeness auto
termination
proof (relation "measure (\<lambda>(T, s). length s)")
  show "wf (measure (\<lambda>(T, s). length s))" by simp
next
  fix T :: "string list" and s e :: string
  assume "find (\<lambda>e. e \<noteq> [] \<and> prefix e s) T = Some e"
  then have "e \<noteq> []" and "prefix e s"
    by (auto simp: find_Some_iff)
  then have "s \<noteq> []" by auto
  with \<open>e \<noteq> []\<close> show "((T, drop (length e) s), (T, s)) \<in> measure (\<lambda>(T, s). length s)"
    by simp
qed

declare trimPrefixes.simps [simp del]

definition TrimLeftSpace :: "string \<Rightarrow> string" where
  \<comment> \<open>\<open>strings.TrimLeftFunc(s, unicode.IsSpace)\<close>\<close>
  "TrimLeftSpace s = trimPrefixes whiteSpace s"

definition TrimRightSpace :: "string \<Rightarrow> string" where
  \<comment> \<open>\<open>strings.TrimRightFunc(s, unicode.IsSpace)\<close>: the same, from the end\<close>
  "TrimRightSpace s = rev (trimPrefixes (map rev whiteSpace) (rev s))"

definition TrimSpace :: "string \<Rightarrow> string" where
  "TrimSpace s = TrimRightSpace (TrimLeftSpace s)"

subsection \<open>strings.HasPrefix, strings.Index, strings.SplitN, strings.ReplaceAll\<close>

definition HasPrefix :: "string \<Rightarrow> string \<Rightarrow> bool" where
  "HasPrefix s p = (take (length p) s = p)"

fun Index :: "string \<Rightarrow> string \<Rightarrow> nat option" where
  \<comment> \<open>the first position where \<open>sep\<close> occurs, \<open>None\<close> for Go's -1\<close>
  "Index [] sep = (if sep = [] then Some 0 else None)"
| "Index (c # cs) sep =
     (if HasPrefix (c # cs) sep then Some 0 else map_option Suc (Index cs sep))"

fun SplitN :: "string \<Rightarrow> string \<Rightarrow> nat \<Rightarrow> string list" where
  \<comment> \<open>\<open>strings.SplitN(s, sep, n)\<close> for a separator that is not empty and \<open>n \<ge> 0\<close>: at most
      \<open>n\<close> pieces, the last one the unsplit rest\<close>
  "SplitN s sep 0 = []"
| "SplitN s sep (Suc 0) = [s]"
| "SplitN s sep (Suc (Suc n)) =
     (case Index s sep of
        None \<Rightarrow> [s]
      | Some m \<Rightarrow> take m s # SplitN (drop (m + length sep) s) sep (Suc n))"

fun ReplaceAll1 :: "string \<Rightarrow> char \<Rightarrow> string \<Rightarrow> string" where
  \<comment> \<open>\<open>strings.ReplaceAll(s, old, new)\<close> for a one-byte \<open>old\<close>\<close>
  "ReplaceAll1 [] old new = []"
| "ReplaceAll1 (c # cs) old new =
     (if c = old then new @ ReplaceAll1 cs old new else c # ReplaceAll1 cs old new)"

subsection \<open>strings.ToLower\<close>

definition isASCII :: "char \<Rightarrow> bool" where
  \<comment> \<open>\<open>c < utf8.RuneSelf\<close>\<close>
  "isASCII c = ((of_char c :: nat) < 128)"

definition lowerASCII :: "char \<Rightarrow> char" where
  \<comment> \<open>\<open>if 'A' <= c && c <= 'Z' { c += 'a' - 'A' }\<close>\<close>
  "lowerASCII c =
     (if (65::nat) \<le> of_char c \<and> (of_char c :: nat) \<le> 90
      then char_of ((of_char c :: nat) + 32) else c)"

definition ToLower :: "(string \<Rightarrow> string) \<Rightarrow> string \<Rightarrow> string" where
  \<comment> \<open>\<open>strings.ToLower\<close>: an ASCII-only string is lowered bytewise; any other string goes
      through \<open>strings.Map(unicode.ToLower, s)\<close>, whose Unicode case tables are outside
      the repository and are the parameter \<open>unicodeLower\<close>\<close>
  "ToLower unicodeLower s =
     (if list_all isASCII s then map lowerASCII s else unicodeLower s)"

subsection \<open>fmt.Sprintf\<close>

fun digits :: "nat \<Rightarrow> string" where
  \<comment> \<open>decimal digits, most significant first\<close>
  "digits n =
     (if n < 10 then [''0123456789'' ! n]
      else digits (n div 10) @ [''0123456789'' ! (n mod 10)])"

declare digits.simps [simp del]

definition itoa :: "int \<Rightarrow> string" where
  \<comment> \<open>the verb \<open>%d\<close>\<close>
  "itoa i = (if i < 0 then CHR ''-'' # digits (nat (- i)) else digits (nat i))"

section \<open>The chat server\<close>

subsection \<open>Constants\<close>

definition MaxClients :: nat where
  "MaxClients = 1000"

definition welcomeMessage :: string where
  "welcomeMessage =
     ''Welcome to the chat server! Type '' @ [CHR 0x27] @ ''/nick NAME'' @ [CHR 0x27] @
     '' to set your nickname.\<newline>''"

definition unknownCmdMsg :: string where
  "unknownCmdMsg = ''Unsupported command\<newline>''"

subsection \<open>Connections, clients and the chat system\<close>

text \<open>
  A \<open>net.Conn\<close> is modelled by what the server can observe of it: the byte strings written
  to it so far, whether \<open>Close\<close> was called on it, and whether the peer is gone. \<open>Write\<close>
  returns an error on a closed connection and on one whose peer is gone.
\<close>

datatype net_error = ErrClosed | ErrPeerGone

record Conn =
  sent :: "string list"
  closed :: bool
  peerGone :: bool

definition Write :: "Conn \<Rightarrow> string \<Rightarrow> net_error + Conn" where
  "Write cn b =
     (if closed cn then Inl ErrClosed
      else if peerGone cn then Inl ErrPeerGone
      else Inr (cn\<lparr>sent := sent cn @ [b]\<rparr>))"

definition Close :: "Conn \<Rightarrow> Conn" where
  "Close cn = cn\<lparr>closed := True\<rparr>"

text \<open>
  \<open>Client\<close> values live behind pointers: the observers list holds \<open>*Client\<close>, compared by
  address in \<open>removeObserver\<close>, and \<open>handleNickCommand\<close> updates the client in place. So the
  clients are kept in a heap, addressed by \<open>ptr\<close>. The fields \<open>chat\<close> (always the one
  \<open>ChatSystem\<close>) and \<open>reader\<close> (its reads are the events below) are left out.
\<close>

type_synonym ptr = nat

record Client =
  id' :: int
  nick :: string
  conn :: Conn

record ChatSystem =
  observers :: "ptr list"

text \<open>What the server prints: \<open>log.Printf\<close>, \<open>log.Print\<close> and \<open>fmt.Printf\<close>.\<close>

datatype Output =
    LogSendError int net_error
  | LogReadError int
  | LogPrint string
  | Stdout string

text \<open>The state of a client's \<open>listen\<close> goroutine, once \<open>main\<close> has started it.\<close>

datatype Phase = Spawned | Reading | Exited

text \<open>
  Where the accept loop of \<open>main\<close> stands, with its local variables: blocked in \<open>Accept\<close>;
  holding the connection and the identity \<open>generateClientID\<close> returned; having registered
  the client with \<open>addObserver\<close>, before the capacity test; having found the capacity
  exceeded, before \<open>conn.Close()\<close>. The mutex is held only inside \<open>generateClientID\<close> and
  \<open>addObserver\<close>, so the other goroutines can run between any two of these points.
\<close>

datatype MainPC = AtAccept | HasID Conn int | Registered ptr | Rejecting ptr

record World =
  chat :: ChatSystem
  heap :: "ptr \<Rightarrow> Client"
  nalloc :: ptr
  goroutine :: "ptr \<Rightarrow> Phase option"
  mainpc :: MainPC
  out :: "Output list"

subsection \<open>ChatSystem: addObserver, removeObserver, broadcast, generateClientID\<close>

definition addObserver :: "ChatSystem \<Rightarrow> ptr \<Rightarrow> ChatSystem" where
  "addObserver ch observer = ch\<lparr>observers := observers ch @ [observer]\<rparr>"

fun removeFirst :: "ptr \<Rightarrow> ptr list \<Rightarrow> ptr list" where
  \<comment> \<open>the loop of \<open>removeObserver\<close>: drop the first entry equal to \<open>observer\<close>, then \<open>break\<close>\<close>
  "removeFirst observer [] = []"
| "removeFirst observer (obs # rest) =
     (if obs = observer then rest else obs # removeFirst observer rest)"

definition removeObserver :: "ChatSystem \<Rightarrow> ptr \<Rightarrow> ChatSystem" where
  "removeObserver ch observer = ch\<lparr>observers := removeFirst observer (observers ch)\<rparr>"

definition generateClientID :: "ChatSystem \<Rightarrow> int" where
  "generateClientID ch = int (length (observers ch)) + 1"

definition Notify :: "World \<Rightarrow> ptr \<Rightarrow> string \<Rightarrow> int \<Rightarrow> World" where
  "Notify w client message senderID =
     (case Write (conn (heap w client)) message of
        Inl err \<Rightarrow> w\<lparr>out := out w @ [LogSendError (id' (heap w client)) err]\<rparr>
      | Inr cn \<Rightarrow> w\<lparr>heap := (heap w)(client := (heap w client)\<lparr>conn := cn\<rparr>)\<rparr>)"

fun broadcast_range :: "World \<Rightarrow> ptr list \<Rightarrow> string \<Rightarrow> int \<Rightarrow> World" where
  \<comment> \<open>\<open>for _, observer := range chat.observers { observer.Notify(message, senderID) }\<close>\<close>
  "broadcast_range w [] message senderID = w"
| "broadcast_range w (observer # rest) message senderID =
     broadcast_range (Notify w observer message senderID) rest message senderID"

definition broadcast :: "World \<Rightarrow> string \<Rightarrow> int \<Rightarrow> World" where
  "broadcast w message senderID = broadcast_range w (observers (chat w)) message senderID"

subsection \<open>Client: handleNickCommand, handleCommand, listen\<close>

definition handleNickCommand :: "World \<Rightarrow> ptr \<Rightarrow> string list \<Rightarrow> World" where
  "handleNickCommand w client parts =
     (if length parts \<noteq> 2
      then Notify w client (''Usage: /nick <nickname>\<newline>'') (id' (heap w client))
      else
        let newNick = TrimSpace (parts ! 1) in
        if newNick = []
        then Notify w client (''Nickname cannot be empty\<newline>'') (id' (heap w client))
        else
          let w1 = w\<lparr>heap := (heap w)(client := (heap w client)\<lparr>nick := newNick\<rparr>)\<rparr>;
              notifyMsg = ''User '' @ itoa (id' (heap w1 client)) @ '' is now known as '' @
                          nick (heap w1 client) @ ''\<newline>'';
              w2 = w1\<lparr>out := out w1 @ [LogPrint notifyMsg]\<rparr>
          in broadcast w2 notifyMsg (id' (heap w2 client)))"

definition displayMsg :: "Client \<Rightarrow> string \<Rightarrow> string" where
  \<comment> \<open>\<open>"%s> %s\n"\<close> with the nickname, \<open>"user:%d> %s\n"\<close> when the nickname is empty\<close>
  "displayMsg c msg =
     (if nick c = [] then ''user:'' @ itoa (id' c) @ ''> '' @ msg @ ''\<newline>''
      else nick c @ ''> '' @ msg @ ''\<newline>'')"

definition handleCommand :: "(string \<Rightarrow> string) \<Rightarrow> World \<Rightarrow> ptr \<Rightarrow> string \<Rightarrow> World" where
  "handleCommand unicodeLower w client line =
     (let msg = TrimSpace line in
      if msg = [] then w
      else if HasPrefix msg ''/'' then
        let parts = SplitN msg '' '' 2;
            command = ToLower unicodeLower (parts ! 0)
        in if command = ''/nick'' then handleNickCommand w client parts
           else Notify w client unknownCmdMsg (id' (heap w client))
      else broadcast w (displayMsg (heap w client) msg) (id' (heap w client)))"

text \<open>
  \<open>listen\<close> runs in a goroutine of its own, so it is split at its blocking reads: the
  welcome message, one round of the loop for a line read, and the exit after a failed read.
\<close>

definition listen_welcome :: "World \<Rightarrow> ptr \<Rightarrow> World" where
  "listen_welcome w client =
     (case Write (conn (heap w client)) welcomeMessage of
        Inl err \<Rightarrow> w\<lparr>out := out w @ [LogSendError (id' (heap w client)) err]\<rparr>
      | Inr cn \<Rightarrow> w\<lparr>heap := (heap w)(client := (heap w client)\<lparr>conn := cn\<rparr>)\<rparr>)"

definition listen_line :: "(string \<Rightarrow> string) \<Rightarrow> World \<Rightarrow> ptr \<Rightarrow> string \<Rightarrow> World" where
  "listen_line unicodeLower w client msg =
     handleCommand unicodeLower w client (ReplaceAll1 msg (CHR 0x0D) [])"

definition listen_exit :: "World \<Rightarrow> ptr \<Rightarrow> bool \<Rightarrow> World" where
  \<comment> \<open>\<open>eof\<close>: the read error was \<open>io.EOF\<close>, which is not logged\<close>
  "listen_exit w client eof =
     (let w1 = (if eof then w else w\<lparr>out := out w @ [LogReadError (id' (heap w client))]\<rparr>);
          w2 = w1\<lparr>chat := removeObserver (chat w1) client\<rparr>;
          w3 = w2\<lparr>heap := (heap w2)(client := (heap w2 client)\<lparr>conn := Close (conn (heap w2 client))\<rparr>)\<rparr>
      in w3\<lparr>out := out w3 @
           [Stdout (''Disconnected client clientID='' @ itoa (id' (heap w3 client)) @ ''\<newline>'')]\<rparr>)"

subsection \<open>main: the accept loop\<close>

text \<open>
  One round of the accept loop, in the pieces between which the other goroutines can run:
  \<open>generateClientID\<close> (above); the new \<open>Client\<close> and \<open>addObserver\<close>; the capacity test, which
  reads \<open>len(chat.observers)\<close> without the mutex; \<open>conn.Close()\<close> for a connection turned
  away; the \<open>Printf\<close> and \<open>go client.listen()\<close> for one let in.
\<close>

definition main_register :: "World \<Rightarrow> Conn \<Rightarrow> int \<Rightarrow> World" where
  \<comment> \<open>\<open>client := &Client{id: clientID, conn: conn, ...}; chat.addObserver(client)\<close>; the new
      client is at the address \<open>nalloc w\<close>\<close>
  "main_register w cn clientID =
     (let client = nalloc w;
          w1 = w\<lparr>heap := (heap w)(client := \<lparr>id' = clientID, nick = [], conn = cn\<rparr>),
                 nalloc := Suc (nalloc w)\<rparr>
      in w1\<lparr>chat := addObserver (chat w1) client\<rparr>)"

definition main_overCapacity :: "World \<Rightarrow> bool" where
  \<comment> \<open>\<open>len(chat.observers) > MaxClients\<close>\<close>
  "main_overCapacity w = (length (observers (chat w)) > MaxClients)"

definition main_reject :: "World \<Rightarrow> ptr \<Rightarrow> World" where
  \<comment> \<open>\<open>conn.Close(); continue\<close>\<close>
  "main_reject w client =
     w\<lparr>heap := (heap w)(client := (heap w client)\<lparr>conn := Close (conn (heap w client))\<rparr>)\<rparr>"

definition main_start :: "World \<Rightarrow> ptr \<Rightarrow> World" where
  \<comment> \<open>\<open>fmt.Printf("Connected client clientid=%d\n", clientID); go client.listen()\<close>\<close>
  "main_start w client =
     w\<lparr>out := out w @
            [Stdout (''Connected client clientid='' @ itoa (id' (heap w client)) @ ''\<newline>'')],
       goroutine := (goroutine w)(client \<mapsto> Spawned)\<rparr>"

definition main_accept :: "World \<Rightarrow> Conn \<Rightarrow> World" where
  \<comment> \<open>one round of the accept loop run without interruption, as it is when no other
      goroutine is scheduled in between: the pieces one after the other\<close>
  "main_accept w cn =
     (let clientID = generateClientID (chat w);
          client = nalloc w;
          w2 = main_register w cn clientID
      in if main_overCapacity w2 then main_reject w2 client else main_start w2 client)"

text \<open>
  The server as a transition system: the accept loop and the \<open>listen\<close> goroutines take
  turns, one event each. The accept loop moves in four events, \<open>Accept\<close> (a connection
  arrives and \<open>generateClientID\<close> runs), \<open>MainRegister\<close>, \<open>MainTest\<close> and \<open>MainClose\<close>, one
  for each piece above. The handling of one line is one event: what it shares with other
  goroutines is the broadcast, which holds the mutex throughout. A read event is possible
  only for a client whose goroutine runs; \<open>Hangup\<close> is the environment's: the peer of a
  client's connection goes away.
\<close>

datatype Event =
    Accept Conn
  | MainRegister
  | MainTest
  | MainClose
  | Greet ptr
  | ReadLine ptr string
  | ReadFail ptr bool
  | Hangup ptr

definition step :: "(string \<Rightarrow> string) \<Rightarrow> World \<Rightarrow> Event \<Rightarrow> World option" where
  "step unicodeLower w e =
     (case e of
        Accept cn \<Rightarrow>
          (case mainpc w of
             AtAccept \<Rightarrow> Some (w\<lparr>mainpc := HasID cn (generateClientID (chat w))\<rparr>)
           | _ \<Rightarrow> None)
      | MainRegister \<Rightarrow>
          (case mainpc w of
             HasID cn clientID \<Rightarrow>
               Some ((main_register w cn clientID)\<lparr>mainpc := Registered (nalloc w)\<rparr>)
           | _ \<Rightarrow> None)
      | MainTest \<Rightarrow>
          (case mainpc w of
             Registered client \<Rightarrow>
               Some (if main_overCapacity w then w\<lparr>mainpc := Rejecting client\<rparr>
                     else (main_start w client)\<lparr>mainpc := AtAccept\<rparr>)
           | _ \<Rightarrow> None)
      | MainClose \<Rightarrow>
          (case mainpc w of
             Rejecting client \<Rightarrow> Some ((main_reject w client)\<lparr>mainpc := AtAccept\<rparr>)
           | _ \<Rightarrow> None)
      | Greet c \<Rightarrow>
          if goroutine w c = Some Spawned
          then Some ((listen_welcome w c)\<lparr>goroutine := (goroutine w)(c \<mapsto> Reading)\<rparr>)
          else None
      | ReadLine c msg \<Rightarrow>
          if goroutine w c = Some Reading then Some (listen_line unicodeLower w c msg) else None
      | ReadFail c eof \<Rightarrow>
          if goroutine w c = Some Reading
          then Some ((listen_exit w c eof)\<lparr>goroutine := (goroutine w)(c \<mapsto> Exited)\<rparr>)
          else None
      | Hangup c \<Rightarrow>
          Some (w\<lparr>heap := (heap w)(c := (heap w c)\<lparr>conn := (conn (heap w c))\<lparr>peerGone := True\<rparr>\<rparr>)\<rparr>))"

fun run :: "(string \<Rightarrow> string) \<Rightarrow> World \<Rightarrow> Event list \<Rightarrow> World option" where
  "run unicodeLower w [] = Some w"
| "run unicodeLower w (e # es) =
     (case step unicodeLower w e of None \<Rightarrow> None | Some w' \<Rightarrow> run unicodeLower w' es)"

definition nullClient :: Client where
  "nullClient = \<lparr>id' = 0, nick = [], conn = \<lparr>sent = [], closed = True, peerGone = False\<rparr>\<rparr>"

definition initWorld :: World where
  \<comment> \<open>\<open>chat := &ChatSystem{}\<close>: no observers, no client allocated, no goroutine, the accept
      loop waiting for its first connection\<close>
  "initWorld =
     \<lparr>chat = \<lparr>observers = []\<rparr>, heap = (\<lambda>_. nullClient), nalloc = 0,
      goroutine = (\<lambda>_. None), mainpc = AtAccept, out = []\<rparr>"

definition newConn :: Conn where
  \<comment> \<open>a connection as \<open>Accept\<close> returns it\<close>
  "newConn = \<lparr>sent = [], closed = False, peerGone = False\<rparr>"

definition main_loop :: "World \<Rightarrow> Conn list \<Rightarrow> World" where
  \<comment> \<open>the accept loop on connections that arrive back to back, each round run without
      interruption\<close>
  "main_loop w cns = foldl main_accept w cns"

section \<open>Notions used in the statements\<close>

definition canWrite :: "Conn \<Rightarrow> bool" where
  \<comment> \<open>\<open>Write\<close> on the connection succeeds\<close>
  "canWrite cn = (\<not> closed cn \<and> \<not> peerGone cn)"

definition deliver :: "Client \<Rightarrow> string \<Rightarrow> Client" where
  \<comment> \<open>the client after one \<open>Notify\<close>: the message is on its connection if the write succeeds\<close>
  "deliver c message =
     (if canWrite (conn c) then c\<lparr>conn := (conn c)\<lparr>sent := sent (conn c) @ [message]\<rparr>\<rparr> else c)"

definition writeError :: "Conn \<Rightarrow> net_error" where
  \<comment> \<open>the error of a failing \<open>Write\<close>\<close>
  "writeError cn = (if closed cn then ErrClosed else ErrPeerGone)"

definition sendErrors :: "World \<Rightarrow> ptr list \<Rightarrow> Output list" where
  \<comment> \<open>the log lines of the clients among \<open>ps\<close> whose connection cannot be written\<close>
  "sendErrors w ps =
     map (\<lambda>p. LogSendError (id' (heap w p)) (writeError (conn (heap w p))))
       (filter (\<lambda>p. \<not> canWrite (conn (heap w p))) ps)"

definition registeredIDs :: "World \<Rightarrow> int list" where
  \<comment> \<open>the identities of the registered clients, in the order of the observers list\<close>
  "registeredIDs w = map (\<lambda>p. id' (heap w p)) (observers (chat w))"

definition asciiOnly :: "string \<Rightarrow> string" where
  \<comment> \<open>stands for the Unicode case mapping in the examples: their strings are ASCII, so
      \<open>ToLower\<close> never calls it\<close>
  "asciiOnly s = s"

definition demoWorld :: World where
  \<comment> \<open>an example: two registered clients with open connections, the first anonymous with
      identity 7, the second named X\<close>
  "demoWorld =
     \<lparr>chat = \<lparr>observers = [0, 1]\<rparr>,
      heap = (\<lambda>_. nullClient)
        (0 := \<lparr>id' = 7, nick = [], conn = newConn\<rparr>,
         1 := \<lparr>id' = 2, nick = ''X'', conn = newConn\<rparr>),
      nalloc = 2,
      goroutine = (\<lambda>_. None)(0 \<mapsto> Reading, 1 \<mapsto> Reading),
      mainpc = AtAccept,
      out = []\<rparr>"

definition brokenWorld :: World where
  \<comment> \<open>\<open>demoWorld\<close> after the peer of the first client has gone away\<close>
  "brokenWorld =
     demoWorld\<lparr>heap := (heap demoWorld)(0 := (heap demoWorld 0)\<lparr>conn := newConn\<lparr>peerGone := True\<rparr>\<rparr>)\<rparr>"

definition allocatedIDs :: "World \<Rightarrow> int list" where
  \<comment> \<open>the identities of all clients created so far, in the order of their creation\<close>
  "allocatedIDs w = map (\<lambda>p. id' (heap w p)) [0..<nalloc w]"

definition turnedAway :: "World \<Rightarrow> ptr \<Rightarrow> bool" where
  \<comment> \<open>the accept loop has found the capacity exceeded for the client \<open>p\<close>: the client exists,
      has no \<open>listen\<close> goroutine, has not received the welcome text, and its connection is
      closed unless the accept loop is just about to close it\<close>
  "turnedAway w p =
     (p < nalloc w \<and> goroutine w p = None \<and>
      welcomeMessage \<notin> set (sent (conn (heap w p))) \<and>
      (mainpc w = Rejecting p \<or> (closed (conn (heap w p)) \<and> mainpc w \<noteq> Registered p)))"

definition mainSound :: "World \<Rightarrow> bool" where
  \<comment> \<open>no goroutine exists for a client that is not yet created, or that the accept loop has
      registered and not yet tested\<close>
  "mainSound w =
     ((\<forall>q. nalloc w \<le> q \<longrightarrow> goroutine w q = None) \<and>
      (\<forall>q. mainpc w = Registered q \<longrightarrow> q < nalloc w \<and> goroutine w q = None))"

definition clientView :: "ptr \<Rightarrow> World \<Rightarrow> Phase option \<times> bool \<times> string list" where
  \<comment> \<open>of the client \<open>p\<close>: its goroutine, whether its connection is closed, and what the
      connection has received\<close>
  "clientView p w = (goroutine w p, closed (conn (heap w p)), sent (conn (heap w p)))"

definition population :: "World \<Rightarrow> nat" where
  \<comment> \<open>the number of registered clients\<close>
  "population w = length (observers (chat w))"

fun isReadFail :: "Event \<Rightarrow> bool" where
  \<comment> \<open>the event is a disconnect: a client's read fails and \<open>listen\<close> deregisters it\<close>
  "isReadFail (ReadFail c eof) = True"
| "isReadFail e = False"

definition fillUp :: "Event list" where
  \<comment> \<open>\<open>MaxClients\<close> connections arrive and are let in, one after the other\<close>
  "fillUp = concat (replicate MaxClients [Accept newConn, MainRegister, MainTest])"

definition notifiedOnly :: "World \<Rightarrow> World \<Rightarrow> ptr \<Rightarrow> string \<Rightarrow> bool" where
  \<comment> \<open>from \<open>w\<close> to \<open>w'\<close> the client \<open>S\<close> alone was notified, with \<open>message\<close>: no other
      client, no name and no registration has changed\<close>
  "notifiedOnly w w' S message =
     (heap w' = (heap w)(S := deliver (heap w S) message) \<and> chat w' = chat w \<and>
      goroutine w' = goroutine w)"

definition specNickNotice :: "int \<Rightarrow> string \<Rightarrow> string" where
  \<comment> \<open>the rename notice in the specification's words:
      \<open>user <identity> is now known as <name>\<close>\<close>
  "specNickNotice i n = ''user '' @ itoa i @ '' is now known as '' @ n"

definition startsWithSpace :: "string \<Rightarrow> bool" where
  \<comment> \<open>the string begins with a white-space rune\<close>
  "startsWithSpace s = list_ex (\<lambda>e. prefix e s) whiteSpace"

definition endsWithSpace :: "string \<Rightarrow> bool" where
  \<comment> \<open>the string ends with a white-space rune\<close>
  "endsWithSpace s = list_ex (\<lambda>e. suffix e s) whiteSpace"

definition prefixFree :: "string list \<Rightarrow> bool" where
  \<comment> \<open>no entry of the table is a proper prefix of another\<close>
  "prefixFree T = list_all (\<lambda>a. list_all (\<lambda>b. prefix a b \<longrightarrow> a = b) T) T"

section \<open>Library functions: facts\<close>

lemma Index_None: "c \<notin> set s \<Longrightarrow> Index s [c] = None"
  by (induction s) (auto simp: HasPrefix_def)

lemma Index_first: "c \<notin> set a \<Longrightarrow> Index (a @ c # b) [c] = Some (length a)"
  by (induction a) (auto simp: HasPrefix_def)

lemma SplitN_no_sep: "c \<notin> set s \<Longrightarrow> SplitN s [c] 2 = [s]"
  by (simp add: numeral_2_eq_2 Index_None)

lemma SplitN_sep: "c \<notin> set a \<Longrightarrow> SplitN (a @ c # b) [c] 2 = [a, b]"
  by (simp add: numeral_2_eq_2 Index_first)

text \<open>\<open>parts[0]\<close> in \<open>handleCommand\<close> is in range: the split has at least one piece.\<close>

lemma SplitN_2_nonempty: "SplitN s sep 2 \<noteq> []"
  by (simp add: numeral_2_eq_2 split: option.splits)

section \<open>Trimming a table of prefixes\<close>

lemma trimPrefixes_none:
  "find (\<lambda>e. e \<noteq> [] \<and> prefix e s) T = None \<Longrightarrow> trimPrefixes T s = s"
  by (simp add: trimPrefixes.simps)

lemma trimPrefixes_some:
  "find (\<lambda>e. e \<noteq> [] \<and> prefix e s) T = Some e \<Longrightarrow>
   trimPrefixes T s = trimPrefixes T (drop (length e) s)"
  by (subst trimPrefixes.simps) simp

lemma trimPrefixes_no_prefix:
  "find (\<lambda>e. e \<noteq> [] \<and> prefix e (trimPrefixes T s)) T = None"
proof (induction T s rule: trimPrefixes.induct)
  case (1 T s)
  show ?case
  proof (cases "find (\<lambda>e. e \<noteq> [] \<and> prefix e s) T")
    case None
    then show ?thesis by (simp add: trimPrefixes_none)
  next
    case (Some e)
    then show ?thesis using 1 by (simp add: trimPrefixes_some)
  qed
qed

lemma trimPrefixes_split:
  "\<exists>es. set es \<subseteq> set T \<and> s = concat es @ trimPrefixes T s"
proof (induction T s rule: trimPrefixes.induct)
  case (1 T s)
  show ?case
  proof (cases "find (\<lambda>e. e \<noteq> [] \<and> prefix e s) T")
    case None
    then have "set [] \<subseteq> set T \<and> s = concat [] @ trimPrefixes T s"
      by (simp add: trimPrefixes_none)
    then show ?thesis by blast
  next
    case (Some e)
    then have e: "e \<in> set T" "prefix e s"
      by (auto simp: find_Some_iff)
    from 1[OF Some] obtain es where
      es: "set es \<subseteq> set T" "drop (length e) s = concat es @ trimPrefixes T (drop (length e) s)"
      by blast
    have "s = e @ drop (length e) s"
      using e(2) by (auto simp: prefix_def)
    then have "s = concat (e # es) @ trimPrefixes T s"
      using es(2) by (simp add: trimPrefixes_some[OF Some])
    moreover have "set (e # es) \<subseteq> set T" using e(1) es(1) by simp
    ultimately show ?thesis by blast
  qed
qed

lemma prefixFree_same:
  assumes "prefixFree T" and "a \<in> set T" and "b \<in> set T" and "prefix a s" and "prefix b s"
  shows "a = b"
proof -
  have pf: "\<And>x y. x \<in> set T \<Longrightarrow> y \<in> set T \<Longrightarrow> prefix x y \<Longrightarrow> x = y"
    using assms(1) by (auto simp: prefixFree_def list_all_iff)
  from assms(4,5) have "prefix a b \<or> prefix b a"
    by (rule prefix_same_cases)
  then show ?thesis
    using pf[OF assms(2,3)] pf[OF assms(3,2)] by auto
qed

lemma trimPrefixes_concat:
  assumes "prefixFree T" and "[] \<notin> set T"
  shows "set es \<subseteq> set T \<Longrightarrow> trimPrefixes T (concat es @ t) = trimPrefixes T t"
proof (induction es)
  case Nil
  then show ?case by simp
next
  case (Cons e es)
  then have e: "e \<in> set T" "e \<noteq> []" using assms(2) by auto
  let ?s = "concat (e # es) @ t"
  have pe: "prefix e ?s" by simp
  obtain e' where f: "find (\<lambda>x. x \<noteq> [] \<and> prefix x ?s) T = Some e'"
    using e pe by (cases "find (\<lambda>x. x \<noteq> [] \<and> prefix x ?s) T") (auto simp: find_None_iff)
  then have "e' \<in> set T" "prefix e' ?s"
    by (auto simp: find_Some_iff)
  then have "e' = e"
    using prefixFree_same[OF assms(1) _ e(1) _ pe] by blast
  then have "trimPrefixes T ?s = trimPrefixes T (concat es @ t)"
    using trimPrefixes_some[OF f] by simp
  then show ?case using Cons by simp
qed

lemma trimPrefixes_keeps_last:
  "\<forall>e\<in>set T. c \<notin> set e \<Longrightarrow> s \<noteq> [] \<Longrightarrow> last s = c \<Longrightarrow>
   trimPrefixes T s \<noteq> [] \<and> last (trimPrefixes T s) = c"
proof (induction T s rule: trimPrefixes.induct)
  case (1 T s)
  show ?case
  proof (cases "find (\<lambda>e. e \<noteq> [] \<and> prefix e s) T")
    case None
    then show ?thesis using 1(3,4) by (simp add: trimPrefixes_none)
  next
    case (Some e)
    then have e: "e \<in> set T" "prefix e s" "e \<noteq> []"
      by (auto simp: find_Some_iff)
    then obtain r where r: "s = e @ r" by (auto simp: prefix_def)
    have "c \<notin> set e" using e(1) 1(2) by blast
    have "r \<noteq> []"
    proof
      assume "r = []"
      then have "last e = c" using r 1(4) by simp
      then show False using \<open>c \<notin> set e\<close> e(3) last_in_set by blast
    qed
    then have "drop (length e) s \<noteq> []" "last (drop (length e) s) = c"
      using r 1(4) by auto
    then show ?thesis
      using 1(1)[OF Some 1(2)] by (simp add: trimPrefixes_some[OF Some])
  qed
qed

section \<open>TrimSpace: what it removes and what it leaves\<close>

lemma whiteSpace_prefixFree: "prefixFree whiteSpace"
  by (simp add: prefixFree_def whiteSpace_def asciiSpace_def)

lemma whiteSpace_nonempty: "[] \<notin> set whiteSpace"
  by (simp add: whiteSpace_def asciiSpace_def)

lemma whiteSpace_no_slash: "\<forall>e\<in>set (map rev whiteSpace). CHR ''/'' \<notin> set e"
  by (simp add: whiteSpace_def asciiSpace_def)

lemma TrimLeftSpace_no_leading: "\<not> startsWithSpace (TrimLeftSpace s)"
  using trimPrefixes_no_prefix[where T=whiteSpace and s=s] whiteSpace_nonempty
  by (auto simp: startsWithSpace_def TrimLeftSpace_def find_None_iff list_ex_iff)

lemma TrimRightSpace_no_trailing: "\<not> endsWithSpace (TrimRightSpace s)"
proof
  assume "endsWithSpace (TrimRightSpace s)"
  then obtain e where e: "e \<in> set whiteSpace" "suffix e (TrimRightSpace s)"
    by (auto simp: endsWithSpace_def list_ex_iff)
  then have "prefix (rev e) (trimPrefixes (map rev whiteSpace) (rev s))"
    by (simp add: suffix_to_prefix TrimRightSpace_def)
  moreover have "rev e \<in> set (map rev whiteSpace)" "rev e \<noteq> []"
    using e(1) whiteSpace_nonempty by auto
  ultimately show False
    using trimPrefixes_no_prefix[where T="map rev whiteSpace" and s="rev s"]
    by (simp only: find_None_iff) blast
qed

lemma TrimRightSpace_split:
  "\<exists>rs. set rs \<subseteq> set whiteSpace \<and> s = TrimRightSpace s @ concat rs"
proof -
  obtain es where es: "set es \<subseteq> set (map rev whiteSpace)"
      "rev s = concat es @ trimPrefixes (map rev whiteSpace) (rev s)"
    using trimPrefixes_split[of "map rev whiteSpace" "rev s"] by blast
  have "s = rev (rev s)" by simp
  also have "\<dots> = TrimRightSpace s @ rev (concat es)"
    by (subst es(2)) (simp add: TrimRightSpace_def)
  also have "rev (concat es) = concat (map rev (rev es))"
    by (rule rev_concat)
  finally have "s = TrimRightSpace s @ concat (map rev (rev es))" .
  moreover have "set (map rev (rev es)) \<subseteq> set whiteSpace"
    using es(1) by auto
  ultimately show ?thesis by blast
qed

lemma TrimRightSpace_prefix: "prefix (TrimRightSpace s) s"
  using TrimRightSpace_split[of s] by (metis prefixI)

lemma TrimSpace_split:
  "\<exists>ls rs. set ls \<subseteq> set whiteSpace \<and> set rs \<subseteq> set whiteSpace \<and>
           s = concat ls @ TrimSpace s @ concat rs"
proof -
  obtain ls where ls: "set ls \<subseteq> set whiteSpace" "s = concat ls @ TrimLeftSpace s"
    using trimPrefixes_split[of whiteSpace s] by (auto simp: TrimLeftSpace_def)
  obtain rs where rs: "set rs \<subseteq> set whiteSpace" "TrimLeftSpace s = TrimSpace s @ concat rs"
    using TrimRightSpace_split[of "TrimLeftSpace s"] by (auto simp: TrimSpace_def)
  have "s = concat ls @ TrimSpace s @ concat rs"
    using ls(2) rs(2) by simp
  then show ?thesis using ls(1) rs(1) by blast
qed

lemma TrimSpace_no_space: "\<not> startsWithSpace (TrimSpace s) \<and> \<not> endsWithSpace (TrimSpace s)"
proof
  show "\<not> startsWithSpace (TrimSpace s)"
  proof
    assume "startsWithSpace (TrimSpace s)"
    then obtain e where "e \<in> set whiteSpace" "prefix e (TrimSpace s)"
      by (auto simp: startsWithSpace_def list_ex_iff)
    moreover have "prefix (TrimSpace s) (TrimLeftSpace s)"
      unfolding TrimSpace_def by (rule TrimRightSpace_prefix)
    ultimately have "e \<in> set whiteSpace" "prefix e (TrimLeftSpace s)"
      using prefix_order.trans by blast+
    then have "startsWithSpace (TrimLeftSpace s)"
      by (auto simp: startsWithSpace_def list_ex_iff)
    then show False using TrimLeftSpace_no_leading by blast
  qed
  show "\<not> endsWithSpace (TrimSpace s)"
    unfolding TrimSpace_def by (rule TrimRightSpace_no_trailing)
qed

lemma TrimLeftSpace_id: "\<not> startsWithSpace s \<Longrightarrow> TrimLeftSpace s = s"
  unfolding TrimLeftSpace_def
  by (rule trimPrefixes_none) (auto simp: startsWithSpace_def list_ex_iff find_None_iff)

lemma TrimRightSpace_id: "\<not> endsWithSpace s \<Longrightarrow> TrimRightSpace s = s"
proof -
  assume "\<not> endsWithSpace s"
  then have "find (\<lambda>e. e \<noteq> [] \<and> prefix e (rev s)) (map rev whiteSpace) = None"
    by (auto simp: endsWithSpace_def list_ex_iff find_None_iff suffix_to_prefix)
  then show ?thesis
    by (simp add: TrimRightSpace_def trimPrefixes_none)
qed

lemma TrimSpace_idem: "TrimSpace (TrimSpace s) = TrimSpace s"
  using TrimSpace_no_space[of s]
  by (simp add: TrimSpace_def[of "TrimSpace s"] TrimLeftSpace_id TrimRightSpace_id)

lemma TrimSpace_leading: "set ws \<subseteq> set whiteSpace \<Longrightarrow> TrimSpace (concat ws @ t) = TrimSpace t"
  by (simp add: TrimSpace_def TrimLeftSpace_def
      trimPrefixes_concat[OF whiteSpace_prefixFree whiteSpace_nonempty])

lemma trimPrefixes_Nil: "trimPrefixes T [] = []"
  by (rule trimPrefixes_none) (simp add: find_None_iff)

lemma TrimSpace_Nil: "TrimSpace [] = []"
  by (simp add: TrimSpace_def TrimLeftSpace_def TrimRightSpace_def trimPrefixes_Nil)

lemma TrimSpace_white: "set ws \<subseteq> set whiteSpace \<Longrightarrow> TrimSpace (concat ws) = []"
  using TrimSpace_leading[of ws "[]"] by (simp add: TrimSpace_Nil)

lemma TrimSpace_slash: "HasPrefix (TrimSpace (CHR ''/'' # rest)) ''/''"
proof -
  have "\<not> startsWithSpace (CHR ''/'' # rest)"
    by (simp add: startsWithSpace_def whiteSpace_def asciiSpace_def)
  then have l: "TrimLeftSpace (CHR ''/'' # rest) = CHR ''/'' # rest"
    by (rule TrimLeftSpace_id)
  define t where "t = trimPrefixes (map rev whiteSpace) (rev (CHR ''/'' # rest))"
  have "t \<noteq> [] \<and> last t = CHR ''/''"
    unfolding t_def by (rule trimPrefixes_keeps_last[OF whiteSpace_no_slash]) simp_all
  then have "t = butlast t @ [CHR ''/'']"
    by (metis append_butlast_last_id)
  then obtain b where "rev t = CHR ''/'' # b"
    by (metis rev.simps(2) rev_rev_ident rev_swap)
  moreover have "TrimSpace (CHR ''/'' # rest) = rev t"
    by (simp only: TrimSpace_def l TrimRightSpace_def t_def)
  ultimately have "TrimSpace (CHR ''/'' # rest) = CHR ''/'' # b"
    by simp
  then show ?thesis
    by (simp add: HasPrefix_def)
qed

text \<open>In a trimmed line, what follows a space is never white space alone.\<close>

lemma trimmed_argument_not_blank:
  assumes "TrimSpace line = tok @ '' '' @ arg"
  shows "TrimSpace arg \<noteq> []"
proof
  assume blank: "TrimSpace arg = []"
  obtain ls rs where ws: "set ls \<subseteq> set whiteSpace" "set rs \<subseteq> set whiteSpace"
      "arg = concat ls @ TrimSpace arg @ concat rs"
    using TrimSpace_split[of arg] by blast
  define es where "es = ['' ''] @ ls @ rs"
  have es: "set es \<subseteq> set whiteSpace" "es \<noteq> []"
    using ws(1,2) by (auto simp: es_def whiteSpace_def asciiSpace_def)
  have "TrimSpace line = tok @ concat es"
    using assms ws(3) blank by (simp add: es_def)
  also have "concat es = concat (butlast es) @ last es"
    using es(2) by (metis append_butlast_last_id concat_append concat.simps(2) concat.simps(1) append_Nil2)
  finally have "suffix (last es) (TrimSpace line)"
    by (metis append.assoc suffixI)
  moreover have "last es \<in> set whiteSpace"
    using es by auto
  ultimately have "endsWithSpace (TrimSpace line)"
    by (auto simp: endsWithSpace_def list_ex_iff)
  then show False
    using TrimSpace_no_space by blast
qed

section \<open>Notify and broadcast: their effect on the state\<close>

lemma Write_cases:
  "Write cn m = (if canWrite cn then Inr (cn\<lparr>sent := sent cn @ [m]\<rparr>) else Inl (writeError cn))"
  by (simp add: Write_def canWrite_def writeError_def)

lemma Notify_heap: "heap (Notify w p m s) = (heap w)(p := deliver (heap w p) m)"
  by (simp add: Notify_def Write_cases deliver_def)

lemma Notify_out: "out (Notify w p m s) = out w @ sendErrors w [p]"
  by (simp add: Notify_def Write_cases sendErrors_def)

lemma Notify_rest [simp]:
  "chat (Notify w p m s) = chat w"
  "nalloc (Notify w p m s) = nalloc w"
  "goroutine (Notify w p m s) = goroutine w"
  by (simp_all add: Notify_def Write_cases)

lemma deliver_fields [simp]:
  "id' (deliver c m) = id' c"
  "nick (deliver c m) = nick c"
  "closed (conn (deliver c m)) = closed (conn c)"
  "peerGone (conn (deliver c m)) = peerGone (conn c)"
  "canWrite (conn (deliver c m)) = canWrite (conn c)"
  by (simp_all add: deliver_def canWrite_def)

lemma deliver_sent:
  "sent (conn (deliver c m)) = (if canWrite (conn c) then sent (conn c) @ [m] else sent (conn c))"
  by (simp add: deliver_def)

lemma broadcast_range_rest [simp]:
  "chat (broadcast_range w ps m s) = chat w"
  "nalloc (broadcast_range w ps m s) = nalloc w"
  "goroutine (broadcast_range w ps m s) = goroutine w"
  by (induction ps arbitrary: w; simp)+

lemma broadcast_range_append:
  "broadcast_range w (ps @ qs) m s = broadcast_range (broadcast_range w ps m s) qs m s"
  by (induction ps arbitrary: w) simp_all

lemma broadcast_range_heap:
  "distinct ps \<Longrightarrow>
   heap (broadcast_range w ps m s) q = (if q \<in> set ps then deliver (heap w q) m else heap w q)"
proof (induction ps arbitrary: w)
  case Nil
  then show ?case by simp
next
  case (Cons p ps)
  then show ?case by (simp add: Notify_heap)
qed

lemma broadcast_range_nick: "nick (heap (broadcast_range w ps m s) q) = nick (heap w q)"
  by (induction ps arbitrary: w) (simp_all add: Notify_heap)

lemma broadcast_range_id: "id' (heap (broadcast_range w ps m s) q) = id' (heap w q)"
  by (induction ps arbitrary: w) (simp_all add: Notify_heap)

lemma sendErrors_Notify: "p \<notin> set ps \<Longrightarrow> sendErrors (Notify w p m s) ps = sendErrors w ps"
  by (induction ps) (auto simp: sendErrors_def Notify_heap)

lemma broadcast_range_out:
  "distinct ps \<Longrightarrow> out (broadcast_range w ps m s) = out w @ sendErrors w ps"
proof (induction ps arbitrary: w)
  case Nil
  then show ?case by (simp add: sendErrors_def)
next
  case (Cons p ps)
  have "sendErrors w (p # ps) = sendErrors w [p] @ sendErrors w ps"
    by (simp add: sendErrors_def)
  with Cons show ?case
    by (simp add: Notify_out sendErrors_Notify)
qed

section \<open>handleCommand: which branch a line takes\<close>

lemma HasPrefix_slash_nonempty: "HasPrefix msg ''/'' \<Longrightarrow> msg \<noteq> []"
  by (auto simp: HasPrefix_def)

lemma handleCommand_plain:
  "TrimSpace line = text \<Longrightarrow> text \<noteq> [] \<Longrightarrow> \<not> HasPrefix text ''/'' \<Longrightarrow>
   handleCommand U w c line = broadcast w (displayMsg (heap w c) text) (id' (heap w c))"
  by (simp add: handleCommand_def)

lemma handleCommand_command:
  "TrimSpace line = msg \<Longrightarrow> HasPrefix msg ''/'' \<Longrightarrow>
   handleCommand U w c line =
     (if ToLower U (SplitN msg '' '' 2 ! 0) = ''/nick''
      then handleNickCommand w c (SplitN msg '' '' 2)
      else Notify w c unknownCmdMsg (id' (heap w c)))"
  by (auto simp: handleCommand_def Let_def dest: HasPrefix_slash_nonempty)

lemma SplitN_token: "SplitN msg '' '' 2 ! 0 = takeWhile (\<lambda>c. c \<noteq> CHR '' '') msg"
proof (cases "CHR '' '' \<in> set msg")
  case False
  have "takeWhile (\<lambda>c. c \<noteq> CHR '' '') msg = msg"
    by (rule takeWhile_eq_all_conv[THEN iffD2]) (use False in auto)
  moreover have "SplitN msg '' '' 2 = [msg]"
    using False by (simp add: SplitN_no_sep)
  ultimately show ?thesis by (simp only: nth_Cons_0)
next
  case True
  define a where "a = takeWhile (\<lambda>c. c \<noteq> CHR '' '') msg"
  define b where "b = dropWhile (\<lambda>c. c \<noteq> CHR '' '') msg"
  have "b \<noteq> []" using True by (simp add: b_def)
  moreover have "hd b = CHR '' ''" using \<open>b \<noteq> []\<close> hd_dropWhile[of "\<lambda>c. c \<noteq> CHR '' ''" msg]
    by (simp add: b_def)
  ultimately have b: "b = CHR '' '' # tl b" by (cases b) auto
  have "msg = a @ CHR '' '' # tl b"
    using b takeWhile_dropWhile_id[of "\<lambda>c. c \<noteq> CHR '' ''" msg] by (simp add: a_def b_def)
  moreover have "CHR '' '' \<notin> set a"
    by (auto simp: a_def dest: set_takeWhileD)
  ultimately show ?thesis using SplitN_sep[of "CHR '' ''" a "tl b"] by (simp add: a_def)
qed

section \<open>Chat messages\<close>

text \<open>
  Claim C3. A line that, trimmed, is the non-empty text \<open>text\<close> without the command prefix is
  broadcast: every registered session \<open>q\<close> (the sender \<open>S\<close> too, when it is registered) is
  notified with exactly \<open><nick>> <text>\n\<close> if the sender has a display name, and with
  exactly \<open>user:<id>> <text>\n\<close> if it has none; the text is appended to what \<open>q\<close>'s
  connection has received whenever that connection can be written. With the name \<open>X\<close> and
  the text \<open>hi\<close> this is \<open>X> hi\n\<close>, with no name and identity 7 it is \<open>user:7> hi\n\<close>.
\<close>

theorem C3_chat_line_delivered_to_every_session:
  assumes "TrimSpace line = text" and "text \<noteq> []" and "\<not> HasPrefix text ''/''"
      and "distinct (observers (chat w))"
      and "q \<in> set (observers (chat w))"
  shows "heap (handleCommand U w S line) q =
           deliver (heap w q)
             (if nick (heap w S) = []
              then ''user:'' @ itoa (id' (heap w S)) @ ''> '' @ text @ ''\<newline>''
              else nick (heap w S) @ ''> '' @ text @ ''\<newline>'') \<and>
         (canWrite (conn (heap w q)) \<longrightarrow>
          sent (conn (heap (handleCommand U w S line) q)) =
            sent (conn (heap w q)) @
            [if nick (heap w S) = []
             then ''user:'' @ itoa (id' (heap w S)) @ ''> '' @ text @ ''\<newline>''
             else nick (heap w S) @ ''> '' @ text @ ''\<newline>''])"
proof -
  have "handleCommand U w S line = broadcast w (displayMsg (heap w S) text) (id' (heap w S))"
    using assms(1-3) by (rule handleCommand_plain)
  then have "heap (handleCommand U w S line) q = deliver (heap w q) (displayMsg (heap w S) text)"
    using assms(4,5) by (simp add: broadcast_def broadcast_range_heap)
  then show ?thesis
    by (simp add: displayMsg_def deliver_sent)
qed

lemma TrimSpace_hi: "TrimSpace ''hi\<newline>'' = ''hi''"
  by (simp add: TrimSpace_def TrimLeftSpace_def TrimRightSpace_def trimPrefixes.simps
      whiteSpace_def asciiSpace_def)

theorem C3_witness:
  "sent (conn (heap (handleCommand asciiOnly demoWorld 1 ''hi\<newline>'') 0)) = [''X> hi\<newline>''] \<and>
   sent (conn (heap (handleCommand asciiOnly demoWorld 1 ''hi\<newline>'') 1)) = [''X> hi\<newline>''] \<and>
   sent (conn (heap (handleCommand asciiOnly demoWorld 0 ''hi\<newline>'') 0)) = [''user:7> hi\<newline>''] \<and>
   sent (conn (heap (handleCommand asciiOnly demoWorld 0 ''hi\<newline>'') 1)) = [''user:7> hi\<newline>'']"
  using C3_chat_line_delivered_to_every_session
          [of "''hi\<newline>''" "''hi''" demoWorld 0 asciiOnly 1]
        C3_chat_line_delivered_to_every_session
          [of "''hi\<newline>''" "''hi''" demoWorld 1 asciiOnly 1]
        C3_chat_line_delivered_to_every_session
          [of "''hi\<newline>''" "''hi''" demoWorld 0 asciiOnly 0]
        C3_chat_line_delivered_to_every_session
          [of "''hi\<newline>''" "''hi''" demoWorld 1 asciiOnly 0]
  by (simp add: TrimSpace_hi HasPrefix_def demoWorld_def newConn_def canWrite_def
      deliver_def itoa_def digits.simps)

section \<open>The rename command\<close>

lemma Notify_notifiedOnly: "notifiedOnly w (Notify w S m i) S m"
  by (simp add: notifiedOnly_def Notify_heap)

lemma handleCommand_nick:
  assumes "TrimSpace line = tok @ '' '' @ arg" and "CHR '' '' \<notin> set tok"
      and "HasPrefix tok ''/''" and "ToLower U tok = ''/nick''"
  shows "handleCommand U w S line = handleNickCommand w S [tok, arg]"
proof -
  have "HasPrefix (tok @ '' '' @ arg) ''/''"
    using assms(3) by (cases tok) (auto simp: HasPrefix_def)
  moreover have "SplitN (tok @ '' '' @ arg) '' '' 2 = [tok, arg]"
    using assms(2) SplitN_sep[of "CHR '' ''" tok arg] by simp
  ultimately show ?thesis
    using assms(1,4) handleCommand_command[of line "tok @ '' '' @ arg" U w S] by simp
qed

lemma handleCommand_token_only:
  assumes "TrimSpace line = tok" and "CHR '' '' \<notin> set tok" and "HasPrefix tok ''/''"
  shows "handleCommand U w S line =
           (if ToLower U tok = ''/nick'' then handleNickCommand w S [tok]
            else Notify w S unknownCmdMsg (id' (heap w S)))"
proof -
  have "SplitN tok '' '' 2 = [tok]"
    using assms(2) SplitN_no_sep[of "CHR '' ''" tok] by simp
  then show ?thesis
    using assms(1,3) handleCommand_command[of line tok U w S] by simp
qed

lemma handleNickCommand_set:
  assumes "TrimSpace arg = N" and "N \<noteq> []"
  shows "handleNickCommand w S [tok, arg] =
           broadcast
             (w\<lparr>heap := (heap w)(S := (heap w S)\<lparr>nick := N\<rparr>),
                out := out w @ [LogPrint (''User '' @ itoa (id' (heap w S)) @
                                           '' is now known as '' @ N @ ''\<newline>'')]\<rparr>)
             (''User '' @ itoa (id' (heap w S)) @ '' is now known as '' @ N @ ''\<newline>'')
             (id' (heap w S))"
  using assms by (simp add: handleNickCommand_def Let_def)

lemma handleNickCommand_nick:
  assumes "TrimSpace arg = N" and "N \<noteq> []"
  shows "nick (heap (handleNickCommand w S [tok, arg]) S) = N"
  by (simp add: handleNickCommand_set[OF assms] broadcast_def broadcast_range_nick)

text \<open>
  Claim C4, as amended. A \<open>/nick\<close> line with the non-empty trimmed argument \<open>N\<close> sets the
  sender's display name to \<open>N\<close>, and every registered session (the sender too, when it is
  registered) whose connection can be written receives exactly the notice
  \<open>User <identity> is now known as <name>\n\<close>: with a capital U and a final newline.
\<close>

theorem C4_nick_sets_name_and_broadcasts_notice:
  assumes "TrimSpace line = tok @ '' '' @ arg" and "CHR '' '' \<notin> set tok"
      and "HasPrefix tok ''/''" and "ToLower U tok = ''/nick''"
      and "TrimSpace arg = N" and "N \<noteq> []"
      and "distinct (observers (chat w))"
      and "q \<in> set (observers (chat w))"
  shows "nick (heap (handleCommand U w S line) S) = N \<and>
         id' (heap (handleCommand U w S line) S) = id' (heap w S) \<and>
         (canWrite (conn (heap w q)) \<longrightarrow>
          sent (conn (heap (handleCommand U w S line) q)) =
            sent (conn (heap w q)) @
            [''User '' @ itoa (id' (heap w S)) @ '' is now known as '' @ N @ ''\<newline>''])"
proof -
  have eq: "handleCommand U w S line = handleNickCommand w S [tok, arg]"
    using assms(1-4) by (rule handleCommand_nick)
  have "nick (heap (handleCommand U w S line) S) = N"
    by (simp add: eq handleNickCommand_nick[OF assms(5,6)])
  moreover have "id' (heap (handleCommand U w S line) S) = id' (heap w S)"
    by (simp add: eq handleNickCommand_set[OF assms(5,6)] broadcast_def broadcast_range_id)
  moreover have "canWrite (conn (heap w q)) \<Longrightarrow>
      sent (conn (heap (handleCommand U w S line) q)) =
        sent (conn (heap w q)) @
        [''User '' @ itoa (id' (heap w S)) @ '' is now known as '' @ N @ ''\<newline>'']"
    using assms(7,8)
    by (auto simp: eq handleNickCommand_set[OF assms(5,6)] broadcast_def broadcast_range_heap
        deliver_sent)
  ultimately show ?thesis by blast
qed

lemma TrimSpace_bob: "TrimSpace ''bob'' = ''bob''"
  by (simp add: TrimSpace_def TrimLeftSpace_def TrimRightSpace_def trimPrefixes.simps
      whiteSpace_def asciiSpace_def)

lemma TrimSpace_nick_bob: "TrimSpace ''/nick bob\<newline>'' = ''/nick bob''"
  by (simp add: TrimSpace_def TrimLeftSpace_def TrimRightSpace_def trimPrefixes.simps
      whiteSpace_def asciiSpace_def)

lemma ToLower_nick: "ToLower U ''/nick'' = ''/nick''"
  by (simp add: ToLower_def isASCII_def lowerASCII_def)

theorem C4_witness:
  "nick (heap (handleCommand asciiOnly demoWorld 0 ''/nick bob\<newline>'') 0) = ''bob'' \<and>
   sent (conn (heap (handleCommand asciiOnly demoWorld 0 ''/nick bob\<newline>'') 0)) =
     [''User 7 is now known as bob\<newline>''] \<and>
   sent (conn (heap (handleCommand asciiOnly demoWorld 0 ''/nick bob\<newline>'') 1)) =
     [''User 7 is now known as bob\<newline>'']"
  using C4_nick_sets_name_and_broadcasts_notice
          [of "''/nick bob\<newline>''" "''/nick''" "''bob''" asciiOnly "''bob''" demoWorld 0 0]
        C4_nick_sets_name_and_broadcasts_notice
          [of "''/nick bob\<newline>''" "''/nick''" "''bob''" asciiOnly "''bob''" demoWorld 1 0]
  by (simp add: TrimSpace_bob TrimSpace_nick_bob ToLower_nick HasPrefix_def demoWorld_def
      newConn_def canWrite_def itoa_def digits.simps)

text \<open>
  The claim as the specification words it fails: the notice the code sends is not
  \<open>user 7 is now known as bob\<close>.
\<close>

theorem C4_notice_text_counterexample:
  "sent (conn (heap (handleCommand asciiOnly demoWorld 0 ''/nick bob\<newline>'') 1)) \<noteq>
     sent (conn (heap demoWorld 1)) @ [specNickNotice 7 ''bob''] \<and>
   sent (conn (heap (handleCommand asciiOnly demoWorld 0 ''/nick bob\<newline>'') 1)) =
     sent (conn (heap demoWorld 1)) @ [''User 7 is now known as bob\<newline>'']"
proof -
  have "handleCommand asciiOnly demoWorld 0 ''/nick bob\<newline>'' =
          handleNickCommand demoWorld 0 [''/nick'', ''bob'']"
    by (rule handleCommand_nick)
       (simp_all add: TrimSpace_nick_bob ToLower_nick HasPrefix_def)
  then show ?thesis
    by (simp add: handleNickCommand_set[OF TrimSpace_bob] broadcast_def Notify_heap
        deliver_def demoWorld_def newConn_def canWrite_def specNickNotice_def itoa_def
        digits.simps)
qed

text \<open>
  Claim C10. The command line is split at its first space only, so the argument of \<open>/nick\<close>
  is all that follows that space: the display name becomes the whole rest, trimmed, and
  may contain spaces. \<open>/nick a b\<close> sets the name \<open>a b\<close>.
\<close>

theorem C10_nick_argument_is_rest_of_line:
  assumes "TrimSpace line = tok @ '' '' @ rest" and "CHR '' '' \<notin> set tok"
      and "HasPrefix tok ''/''" and "ToLower U tok = ''/nick''"
      and "TrimSpace rest \<noteq> []"
  shows "SplitN (TrimSpace line) '' '' 2 = [tok, rest] \<and>
         nick (heap (handleCommand U w S line) S) = TrimSpace rest"
proof -
  have "SplitN (TrimSpace line) '' '' 2 = [tok, rest]"
    using assms(1,2) SplitN_sep[of "CHR '' ''" tok rest] by simp
  moreover have "handleCommand U w S line = handleNickCommand w S [tok, rest]"
    using assms(1-4) by (rule handleCommand_nick)
  ultimately show ?thesis
    using assms(5) by (simp add: handleNickCommand_nick)
qed

lemma TrimSpace_a_b: "TrimSpace ''a b'' = ''a b''"
  by (simp add: TrimSpace_def TrimLeftSpace_def TrimRightSpace_def trimPrefixes.simps
      whiteSpace_def asciiSpace_def)

lemma TrimSpace_nick_a_b: "TrimSpace ''/nick a b\<newline>'' = ''/nick a b''"
  by (simp add: TrimSpace_def TrimLeftSpace_def TrimRightSpace_def trimPrefixes.simps
      whiteSpace_def asciiSpace_def)

theorem C10_witness:
  "SplitN (TrimSpace ''/nick a b\<newline>'') '' '' 2 = [''/nick'', ''a b''] \<and>
   nick (heap (handleCommand asciiOnly demoWorld 0 ''/nick a b\<newline>'') 0) = ''a b''"
  using C10_nick_argument_is_rest_of_line
          [of "''/nick a b\<newline>''" "''/nick''" "''a b''" asciiOnly demoWorld 0]
  by (simp add: TrimSpace_a_b TrimSpace_nick_a_b ToLower_nick HasPrefix_def)

text \<open>
  Claim C5. \<open>/nick\<close> without an argument (the trimmed line is the command token alone), and
  \<open>handleNickCommand\<close> on an argument that is empty after trimming, notify the sender alone,
  with \<open>Usage: /nick <nickname>\n\<close> and \<open>Nickname cannot be empty\n\<close>: no other client is
  written to, and the sender's display name stays as it was. (The second case does not
  arise from a line read: \<open>handleCommand\<close> trims the line first, so by
  \<open>trimmed_argument_not_blank\<close> an argument that is there is not blank.)
\<close>

theorem C5_nick_without_argument_notifies_sender_only:
  "(TrimSpace line = tok \<and> CHR '' '' \<notin> set tok \<and> HasPrefix tok ''/'' \<and>
    ToLower U tok = ''/nick'' \<longrightarrow>
      notifiedOnly w (handleCommand U w S line) S ''Usage: /nick <nickname>\<newline>'' \<and>
      nick (heap (handleCommand U w S line) S) = nick (heap w S)) \<and>
   (length parts \<noteq> 2 \<longrightarrow>
      notifiedOnly w (handleNickCommand w S parts) S ''Usage: /nick <nickname>\<newline>'' \<and>
      nick (heap (handleNickCommand w S parts) S) = nick (heap w S)) \<and>
   (length parts = 2 \<and> TrimSpace (parts ! 1) = [] \<longrightarrow>
      notifiedOnly w (handleNickCommand w S parts) S ''Nickname cannot be empty\<newline>'' \<and>
      nick (heap (handleNickCommand w S parts) S) = nick (heap w S))"
proof (intro conjI impI)
  assume a: "TrimSpace line = tok \<and> CHR '' '' \<notin> set tok \<and> HasPrefix tok ''/'' \<and>
    ToLower U tok = ''/nick''"
  then have eq: "handleCommand U w S line =
      Notify w S ''Usage: /nick <nickname>\<newline>'' (id' (heap w S))"
    using handleCommand_token_only[of line tok U w S] by (simp add: handleNickCommand_def)
  show "notifiedOnly w (handleCommand U w S line) S ''Usage: /nick <nickname>\<newline>''"
    by (simp only: eq Notify_notifiedOnly)
  show "nick (heap (handleCommand U w S line) S) = nick (heap w S)"
    by (simp add: eq Notify_heap)
next
  assume "length parts \<noteq> 2"
  then have eq: "handleNickCommand w S parts =
      Notify w S ''Usage: /nick <nickname>\<newline>'' (id' (heap w S))"
    by (simp add: handleNickCommand_def)
  show "notifiedOnly w (handleNickCommand w S parts) S ''Usage: /nick <nickname>\<newline>''"
    by (simp only: eq Notify_notifiedOnly)
  show "nick (heap (handleNickCommand w S parts) S) = nick (heap w S)"
    by (simp add: eq Notify_heap)
next
  assume "length parts = 2 \<and> TrimSpace (parts ! 1) = []"
  then have eq: "handleNickCommand w S parts =
      Notify w S ''Nickname cannot be empty\<newline>'' (id' (heap w S))"
    by (simp add: handleNickCommand_def)
  show "notifiedOnly w (handleNickCommand w S parts) S ''Nickname cannot be empty\<newline>''"
    by (simp only: eq Notify_notifiedOnly)
  show "nick (heap (handleNickCommand w S parts) S) = nick (heap w S)"
    by (simp add: eq Notify_heap)
qed

lemma TrimSpace_nick_only: "TrimSpace ''/nick\<newline>'' = ''/nick''"
  by (simp add: TrimSpace_def TrimLeftSpace_def TrimRightSpace_def trimPrefixes.simps
      whiteSpace_def asciiSpace_def)

lemma TrimSpace_blank: "TrimSpace ''  '' = []"
  by (simp add: TrimSpace_def TrimLeftSpace_def TrimRightSpace_def trimPrefixes.simps
      whiteSpace_def asciiSpace_def)

theorem C5_witness:
  "sent (conn (heap (handleCommand asciiOnly demoWorld 1 ''/nick\<newline>'') 1)) =
     [''Usage: /nick <nickname>\<newline>''] \<and>
   sent (conn (heap (handleCommand asciiOnly demoWorld 1 ''/nick\<newline>'') 0)) = [] \<and>
   nick (heap (handleCommand asciiOnly demoWorld 1 ''/nick\<newline>'') 1) = ''X'' \<and>
   sent (conn (heap (handleNickCommand demoWorld 1 [''/nick'', ''x'', ''y'']) 1)) =
     [''Usage: /nick <nickname>\<newline>''] \<and>
   sent (conn (heap (handleNickCommand demoWorld 1 [''/nick'', ''  '']) 1)) =
     [''Nickname cannot be empty\<newline>''] \<and>
   sent (conn (heap (handleNickCommand demoWorld 1 [''/nick'', ''  '']) 0)) = [] \<and>
   nick (heap (handleNickCommand demoWorld 1 [''/nick'', ''  '']) 1) = ''X''"
  using C5_nick_without_argument_notifies_sender_only
          [of "''/nick\<newline>''" "''/nick''" asciiOnly demoWorld 1 "[''/nick'', ''x'', ''y'']"]
        C5_nick_without_argument_notifies_sender_only
          [of "''/nick\<newline>''" "''/nick''" asciiOnly demoWorld 1 "[''/nick'', ''  '']"]
  by (simp add: TrimSpace_nick_only TrimSpace_blank ToLower_nick HasPrefix_def
      notifiedOnly_def deliver_def demoWorld_def newConn_def canWrite_def)

section \<open>Unknown commands\<close>

lemma ToLower_ascii: "list_all isASCII s \<Longrightarrow> ToLower U s = map lowerASCII s"
  by (simp add: ToLower_def)

text \<open>
  Claim C6. For a line that, trimmed, begins with \<open>/\<close>, the command token is the text up to
  the first space. When its lower-case form is not \<open>/nick\<close>, the sender alone is notified,
  with the fixed text \<open>Unsupported command\n\<close>, and nothing is broadcast. When it is
  \<open>/nick\<close> the line goes to \<open>handleNickCommand\<close>; an ASCII token that spells \<open>/nick\<close> in any
  mix of upper and lower case has that lower-case form.
\<close>

theorem C6_unknown_command_notice_to_sender_only:
  assumes "TrimSpace line = msg" and "HasPrefix msg ''/''"
  shows "(ToLower U (takeWhile (\<lambda>c. c \<noteq> CHR '' '') msg) \<noteq> ''/nick'' \<longrightarrow>
            handleCommand U w S line = Notify w S unknownCmdMsg (id' (heap w S)) \<and>
            notifiedOnly w (handleCommand U w S line) S ''Unsupported command\<newline>'' \<and>
            nick (heap (handleCommand U w S line) S) = nick (heap w S)) \<and>
         (ToLower U (takeWhile (\<lambda>c. c \<noteq> CHR '' '') msg) = ''/nick'' \<longrightarrow>
            handleCommand U w S line = handleNickCommand w S (SplitN msg '' '' 2)) \<and>
         (list_all isASCII tok \<and> map lowerASCII tok = ''/nick'' \<longrightarrow>
            ToLower U tok = ''/nick'')"
proof (intro conjI impI)
  assume "ToLower U (takeWhile (\<lambda>c. c \<noteq> CHR '' '') msg) \<noteq> ''/nick''"
  then have eq: "handleCommand U w S line = Notify w S unknownCmdMsg (id' (heap w S))"
    using assms by (simp add: handleCommand_command SplitN_token)
  then show "handleCommand U w S line = Notify w S unknownCmdMsg (id' (heap w S))" .
  have "notifiedOnly w (Notify w S unknownCmdMsg (id' (heap w S))) S unknownCmdMsg"
    by (rule Notify_notifiedOnly)
  then show "notifiedOnly w (handleCommand U w S line) S ''Unsupported command\<newline>''"
    by (simp add: eq unknownCmdMsg_def)
  show "nick (heap (handleCommand U w S line) S) = nick (heap w S)"
    by (simp add: eq Notify_heap)
next
  assume "ToLower U (takeWhile (\<lambda>c. c \<noteq> CHR '' '') msg) = ''/nick''"
  then show "handleCommand U w S line = handleNickCommand w S (SplitN msg '' '' 2)"
    using assms by (simp add: handleCommand_command SplitN_token)
next
  assume "list_all isASCII tok \<and> map lowerASCII tok = ''/nick''"
  then show "ToLower U tok = ''/nick''"
    by (simp add: ToLower_ascii)
qed

lemma TrimSpace_frobnicate: "TrimSpace ''/frobnicate\<newline>'' = ''/frobnicate''"
  by (simp add: TrimSpace_def TrimLeftSpace_def TrimRightSpace_def trimPrefixes.simps
      whiteSpace_def asciiSpace_def)

lemma TrimSpace_NiCk_bob: "TrimSpace ''/NiCk bob\<newline>'' = ''/NiCk bob''"
  by (simp add: TrimSpace_def TrimLeftSpace_def TrimRightSpace_def trimPrefixes.simps
      whiteSpace_def asciiSpace_def)

lemma lower_NiCk: "list_all isASCII ''/NiCk'' \<and> map lowerASCII ''/NiCk'' = ''/nick''"
  by code_simp

lemma lower_frobnicate: "ToLower U ''/frobnicate'' = ''/frobnicate''"
  by (simp add: ToLower_def isASCII_def lowerASCII_def)

theorem C6_witness:
  "sent (conn (heap (handleCommand asciiOnly demoWorld 0 ''/frobnicate\<newline>'') 0)) =
     [''Unsupported command\<newline>''] \<and>
   sent (conn (heap (handleCommand asciiOnly demoWorld 0 ''/frobnicate\<newline>'') 1)) = [] \<and>
   handleCommand asciiOnly demoWorld 0 ''/NiCk bob\<newline>'' =
     handleNickCommand demoWorld 0 [''/NiCk'', ''bob''] \<and>
   nick (heap (handleCommand asciiOnly demoWorld 0 ''/NiCk bob\<newline>'') 0) = ''bob''"
proof -
  have split: "SplitN ''/NiCk bob'' '' '' 2 = [''/NiCk'', ''bob'']"
    using SplitN_sep[of "CHR '' ''" "''/NiCk''" "''bob''"] by simp
  have low: "ToLower asciiOnly ''/NiCk'' = ''/nick''"
    using C6_unknown_command_notice_to_sender_only
            [of "''/NiCk bob\<newline>''" "''/NiCk bob''" asciiOnly demoWorld 0 "''/NiCk''"]
          lower_NiCk
    by (simp add: TrimSpace_NiCk_bob HasPrefix_def)
  have nick: "handleCommand asciiOnly demoWorld 0 ''/NiCk bob\<newline>'' =
      handleNickCommand demoWorld 0 [''/NiCk'', ''bob'']"
    using C6_unknown_command_notice_to_sender_only
            [of "''/NiCk bob\<newline>''" "''/NiCk bob''" asciiOnly demoWorld 0 "''/NiCk''"]
          low split
    by (simp add: TrimSpace_NiCk_bob HasPrefix_def)
  have unknown: "notifiedOnly demoWorld (handleCommand asciiOnly demoWorld 0 ''/frobnicate\<newline>'')
      0 ''Unsupported command\<newline>''"
    using C6_unknown_command_notice_to_sender_only
            [of "''/frobnicate\<newline>''" "''/frobnicate''" asciiOnly demoWorld 0 "''/NiCk''"]
    by (auto simp: TrimSpace_frobnicate HasPrefix_def lower_frobnicate)
  show ?thesis
    using unknown nick
    by (simp add: notifiedOnly_def deliver_def demoWorld_def newConn_def canWrite_def
        handleNickCommand_nick[OF TrimSpace_bob])
qed

section \<open>Write errors during a broadcast\<close>

text \<open>
  Claim C7. When the write to one recipient of a broadcast fails, the broadcast goes on:
  \<open>Notify\<close> is run on every recipient after the failing one, each of them whose connection
  can be written receives the message, the failure is logged, and \<open>broadcast\<close> returns
  with the registrations unchanged; all it logs are the failed writes.
\<close>

theorem C7_write_error_does_not_abort_broadcast:
  assumes "observers (chat w) = before @ failing # after"
      and "distinct (observers (chat w))"
      and "Write (conn (heap w failing)) m = Inl err"
      and "q \<in> set after"
  shows "broadcast w m s =
           broadcast_range (Notify (broadcast_range w before m s) failing m s) after m s \<and>
         heap (broadcast w m s) q = deliver (heap w q) m \<and>
         (canWrite (conn (heap w q)) \<longrightarrow>
            sent (conn (heap (broadcast w m s) q)) = sent (conn (heap w q)) @ [m]) \<and>
         heap (broadcast w m s) failing = heap w failing \<and>
         LogSendError (id' (heap w failing)) err \<in> set (out (broadcast w m s)) \<and>
         out (broadcast w m s) = out w @ sendErrors w (observers (chat w)) \<and>
         chat (broadcast w m s) = chat w"
proof -
  have fail: "\<not> canWrite (conn (heap w failing))" and err: "err = writeError (conn (heap w failing))"
    using assms(3) by (auto simp: Write_cases split: if_splits)
  have q: "q \<in> set (observers (chat w))" and f: "failing \<in> set (observers (chat w))"
    using assms(1,4) by auto
  have 1: "broadcast w m s =
      broadcast_range (Notify (broadcast_range w before m s) failing m s) after m s"
    by (simp add: broadcast_def assms(1) broadcast_range_append)
  have 2: "heap (broadcast w m s) q = deliver (heap w q) m"
    using assms(2) q by (simp add: broadcast_def broadcast_range_heap)
  have 3: "heap (broadcast w m s) failing = heap w failing"
    using assms(2) f fail by (simp add: broadcast_def broadcast_range_heap deliver_def)
  have 4: "out (broadcast w m s) = out w @ sendErrors w (observers (chat w))"
    using assms(2) by (simp add: broadcast_def broadcast_range_out)
  have 5: "LogSendError (id' (heap w failing)) err \<in> set (out (broadcast w m s))"
    using f fail err by (auto simp: 4 sendErrors_def)
  show ?thesis
    using 1 2 3 4 5 by (simp add: deliver_sent broadcast_def)
qed

theorem C7_witness:
  "sent (conn (heap (broadcast brokenWorld ''X> hi\<newline>'' 2) 1)) = [''X> hi\<newline>''] \<and>
   sent (conn (heap (broadcast brokenWorld ''X> hi\<newline>'' 2) 0)) = [] \<and>
   out (broadcast brokenWorld ''X> hi\<newline>'' 2) = [LogSendError 7 ErrPeerGone] \<and>
   observers (chat (broadcast brokenWorld ''X> hi\<newline>'' 2)) = [0, 1]"
  using C7_write_error_does_not_abort_broadcast
          [of brokenWorld "[]" 0 "[1]" "''X> hi\<newline>''" ErrPeerGone 1 2]
  by (auto simp: brokenWorld_def demoWorld_def newConn_def Write_def canWrite_def
      sendErrors_def writeError_def deliver_def)

section \<open>The accept loop and the population\<close>

lemmas main_defs =
  main_accept_def main_register_def main_overCapacity_def main_reject_def main_start_def
  addObserver_def Let_def

lemma main_accept_observers:
  "observers (chat (main_accept w cn)) = observers (chat w) @ [nalloc w]"
  by (simp add: main_defs)

lemma main_accept_nalloc: "nalloc (main_accept w cn) = Suc (nalloc w)"
  by (simp add: main_defs)

lemma main_accept_mainpc: "mainpc (main_accept w cn) = mainpc w"
  by (simp add: main_defs)

lemma main_accept_goroutine_other:
  "p \<noteq> nalloc w \<Longrightarrow> goroutine (main_accept w cn) p = goroutine w p"
  by (simp add: main_defs)

lemma main_accept_full:
  assumes "MaxClients \<le> length (observers (chat w))"
  shows "heap (main_accept w cn) (nalloc w) =
           \<lparr>id' = generateClientID (chat w), nick = [], conn = Close cn\<rparr>"
    and "goroutine (main_accept w cn) (nalloc w) = goroutine w (nalloc w)"
  using assms by (simp_all add: main_defs)

lemma main_accept_admitted:
  assumes "length (observers (chat w)) < MaxClients"
  shows "heap (main_accept w cn) (nalloc w) =
           \<lparr>id' = generateClientID (chat w), nick = [], conn = cn\<rparr>"
    and "goroutine (main_accept w cn) (nalloc w) = Some Spawned"
  using assms by (simp_all add: main_defs)

lemma main_loop_snoc: "main_loop w (cns @ [cn]) = main_accept (main_loop w cns) cn"
  by (simp add: main_loop_def)

lemma main_loop_replicate_Suc:
  "main_loop w (replicate (Suc n) cn) = main_accept (main_loop w (replicate n cn)) cn"
proof -
  have "replicate (Suc n) cn = replicate n cn @ [cn]"
    by (simp add: replicate_append_same)
  then show ?thesis
    by (simp only: main_loop_snoc)
qed

lemma main_loop_nalloc: "nalloc (main_loop initWorld (replicate n cn)) = n"
proof (induction n)
  case 0
  show ?case by (simp add: main_loop_def initWorld_def)
next
  case (Suc n)
  then show ?case by (simp only: main_loop_replicate_Suc main_accept_nalloc)
qed

lemma main_loop_mainpc: "mainpc (main_loop initWorld (replicate n cn)) = AtAccept"
proof (induction n)
  case 0
  show ?case by (simp add: main_loop_def initWorld_def)
next
  case (Suc n)
  then show ?case by (simp only: main_loop_replicate_Suc main_accept_mainpc)
qed

lemma main_loop_observers: "observers (chat (main_loop initWorld (replicate n cn))) = [0..<n]"
proof (induction n)
  case 0
  show ?case by (simp add: main_loop_def initWorld_def)
next
  case (Suc n)
  then show ?case
    by (simp only: main_loop_replicate_Suc main_accept_observers main_loop_nalloc) simp
qed

lemma main_loop_goroutine:
  "goroutine (main_loop initWorld (replicate n cn)) p =
     (if p < n \<and> p < MaxClients then Some Spawned else None)"
proof (induction n)
  case 0
  show ?case by (simp add: main_loop_def initWorld_def)
next
  case (Suc n)
  let ?w = "main_loop initWorld (replicate n cn)"
  show ?case
  proof (cases "p = n")
    case False
    then have "goroutine (main_accept ?w cn) p = goroutine ?w p"
      by (simp add: main_accept_goroutine_other main_loop_nalloc)
    with False Suc show ?thesis
      by (simp only: main_loop_replicate_Suc) auto
  next
    case True
    show ?thesis
    proof (cases "n < MaxClients")
      case True
      then have "goroutine (main_accept ?w cn) (nalloc ?w) = Some Spawned"
        by (intro main_accept_admitted) (simp add: main_loop_observers)
      with True \<open>p = n\<close> show ?thesis
        by (simp only: main_loop_replicate_Suc main_loop_nalloc) simp
    next
      case False
      then have "goroutine (main_accept ?w cn) (nalloc ?w) = goroutine ?w (nalloc ?w)"
        by (intro main_accept_full) (simp add: main_loop_observers)
      with False \<open>p = n\<close> Suc show ?thesis
        by (simp only: main_loop_replicate_Suc main_loop_nalloc) simp
    qed
  qed
qed

text \<open>
  A round of the accept loop that no other goroutine interrupts is a run of the transition
  system: three events for a connection let in, four for one turned away. So the states of
  \<open>main_loop\<close> are states the server reaches.
\<close>

lemma run_append:
  "run U w (es @ fs) = (case run U w es of None \<Rightarrow> None | Some w' \<Rightarrow> run U w' fs)"
  by (induction es arbitrary: w) (simp_all split: option.splits)

lemma round_admitted:
  assumes "mainpc w = AtAccept" and "length (observers (chat w)) < MaxClients"
  shows "run U w [Accept cn, MainRegister, MainTest] = Some (main_accept w cn)"
  using assms by (cases w) (simp add: step_def main_defs)

lemma round_rejected:
  assumes "mainpc w = AtAccept" and "MaxClients \<le> length (observers (chat w))"
  shows "run U w [Accept cn, MainRegister, MainTest, MainClose] = Some (main_accept w cn)"
  using assms by (cases w) (simp add: step_def main_defs)

lemma main_loop_reached:
  "n \<le> MaxClients \<Longrightarrow>
   run U initWorld (concat (replicate n [Accept cn, MainRegister, MainTest])) =
     Some (main_loop initWorld (replicate n cn))"
proof (induction n)
  case 0
  show ?case by (simp add: main_loop_def)
next
  case (Suc n)
  let ?w = "main_loop initWorld (replicate n cn)"
  have "replicate (Suc n) [Accept cn, MainRegister, MainTest] =
      replicate n [Accept cn, MainRegister, MainTest] @ [[Accept cn, MainRegister, MainTest]]"
    by (simp add: replicate_append_same)
  then have "concat (replicate (Suc n) [Accept cn, MainRegister, MainTest]) =
      concat (replicate n [Accept cn, MainRegister, MainTest]) @ [Accept cn, MainRegister, MainTest]"
    by (simp only: concat_append) simp
  moreover have "run U ?w [Accept cn, MainRegister, MainTest] = Some (main_accept ?w cn)"
    using Suc.prems by (intro round_admitted) (simp_all add: main_loop_mainpc main_loop_observers)
  ultimately show ?case
    using Suc by (simp only: run_append main_loop_replicate_Suc) simp
qed

lemma main_loop_over_capacity_reached:
  "run U initWorld
     (concat (replicate MaxClients [Accept cn, MainRegister, MainTest]) @
      [Accept cn, MainRegister, MainTest, MainClose]) =
     Some (main_loop initWorld (replicate (Suc MaxClients) cn))"
proof -
  let ?w = "main_loop initWorld (replicate MaxClients cn)"
  have "run U ?w [Accept cn, MainRegister, MainTest, MainClose] = Some (main_accept ?w cn)"
    by (intro round_rejected) (simp_all add: main_loop_mainpc main_loop_observers)
  then show ?thesis
    by (simp only: run_append main_loop_reached[OF order_refl] main_loop_replicate_Suc) simp
qed

text \<open>
  Claim C1 fails on the code. After \<open>MaxClients\<close> connections the population is at the
  maximum; the accept loop still appends the next client to the observers, then closes its
  connection and leaves it registered: the population is \<open>MaxClients + 1\<close>, and the closed
  client has no \<open>listen\<close> goroutine that would ever remove it.
\<close>

theorem C1_accept_at_capacity_still_registers:
  "length (observers (chat (main_loop initWorld (replicate MaxClients newConn)))) = MaxClients \<and>
   observers (chat (main_loop initWorld (replicate (Suc MaxClients) newConn))) =
     observers (chat (main_loop initWorld (replicate MaxClients newConn))) @ [MaxClients] \<and>
   length (observers (chat (main_loop initWorld (replicate (Suc MaxClients) newConn)))) =
     Suc MaxClients \<and>
   closed (conn (heap (main_loop initWorld (replicate (Suc MaxClients) newConn)) MaxClients)) \<and>
   goroutine (main_loop initWorld (replicate (Suc MaxClients) newConn)) MaxClients = None"
proof -
  let ?w = "main_loop initWorld (replicate MaxClients newConn)"
  have full: "MaxClients \<le> length (observers (chat ?w))"
    by (simp add: main_loop_observers)
  have "heap (main_accept ?w newConn) (nalloc ?w) =
      \<lparr>id' = generateClientID (chat ?w), nick = [], conn = Close newConn\<rparr>"
    using full by (rule main_accept_full)
  then have "closed (conn (heap (main_loop initWorld (replicate (Suc MaxClients) newConn)) MaxClients))"
    unfolding main_loop_replicate_Suc by (simp add: main_loop_nalloc Close_def)
  then show ?thesis
    by (simp add: main_loop_observers main_loop_goroutine del: replicate.simps)
qed

section \<open>Client identities\<close>

text \<open>
  Claim C2 fails on the code. Three clients connect, the first one leaving before the third
  arrives: \<open>generateClientID\<close> hands out 1, 2 and 2 again, so the identities do not grow
  strictly, and the two clients registered at the end both hold identity 2.
\<close>

theorem C2_identity_reused_after_disconnect:
  "map_option allocatedIDs
     (run asciiOnly initWorld
        [Accept newConn, MainRegister, MainTest, Greet 0,
         Accept newConn, MainRegister, MainTest, Greet 1,
         ReadFail 0 True,
         Accept newConn, MainRegister, MainTest]) =
     Some [1, 2, 2] \<and>
   map_option registeredIDs
     (run asciiOnly initWorld
        [Accept newConn, MainRegister, MainTest, Greet 0,
         Accept newConn, MainRegister, MainTest, Greet 1,
         ReadFail 0 True,
         Accept newConn, MainRegister, MainTest]) =
     Some [2, 2]"
  by (simp add: step_def main_defs listen_welcome_def listen_exit_def initWorld_def
      newConn_def Write_def Close_def removeObserver_def generateClientID_def
      MaxClients_def allocatedIDs_def registeredIDs_def upt_rec)

section \<open>A connection turned away at capacity\<close>

lemma world_rest [simp]:
  "mainpc (Notify w p m s) = mainpc w"
  "mainpc (broadcast_range w ps m s) = mainpc w"
  by (simp add: Notify_def Write_cases, induction ps arbitrary: w)
     (simp_all add: Notify_def Write_cases)

lemma handleNickCommand_rest [simp]:
  "nalloc (handleNickCommand w c parts) = nalloc w"
  "goroutine (handleNickCommand w c parts) = goroutine w"
  "mainpc (handleNickCommand w c parts) = mainpc w"
  "chat (handleNickCommand w c parts) = chat w"
  by (simp_all add: handleNickCommand_def Let_def broadcast_def)

lemma handleCommand_rest [simp]:
  "nalloc (handleCommand U w c line) = nalloc w"
  "goroutine (handleCommand U w c line) = goroutine w"
  "mainpc (handleCommand U w c line) = mainpc w"
  "chat (handleCommand U w c line) = chat w"
  by (simp_all add: handleCommand_def Let_def broadcast_def)

lemma Notify_other: "p \<noteq> q \<Longrightarrow> heap (Notify w q m s) p = heap w p"
  by (simp add: Notify_heap)

lemma Notify_closed: "closed (conn (heap (Notify w q m s) p)) = closed (conn (heap w p))"
  by (simp add: Notify_heap)

lemma broadcast_range_closed:
  "closed (conn (heap (broadcast_range w ps m s) p)) = closed (conn (heap w p))"
  by (induction ps arbitrary: w) (simp_all add: Notify_closed)

lemma Notify_not_sent:
  "m \<noteq> x \<Longrightarrow> x \<notin> set (sent (conn (heap w p))) \<Longrightarrow>
   x \<notin> set (sent (conn (heap (Notify w q m s) p)))"
  by (auto simp: Notify_heap deliver_sent)

lemma broadcast_range_not_sent:
  "m \<noteq> x \<Longrightarrow> x \<notin> set (sent (conn (heap w p))) \<Longrightarrow>
   x \<notin> set (sent (conn (heap (broadcast_range w ps m s) p)))"
  by (induction ps arbitrary: w) (simp_all add: Notify_not_sent)

text \<open>No text that is broadcast is the welcome text.\<close>

lemma displayMsg_not_welcome: "displayMsg c msg \<noteq> welcomeMessage"
proof -
  have "CHR ''>'' \<in> set (displayMsg c msg)"
    by (simp add: displayMsg_def)
  moreover have "CHR ''>'' \<notin> set welcomeMessage"
    by (simp add: welcomeMessage_def)
  ultimately show ?thesis by metis
qed

lemma nick_notice_not_welcome:
  "''User '' @ i @ '' is now known as '' @ n @ ''\<newline>'' \<noteq> welcomeMessage"
  by (simp add: welcomeMessage_def)

lemma handleNickCommand_effect:
  "handleNickCommand w c parts =
     (if length parts \<noteq> 2
      then Notify w c ''Usage: /nick <nickname>\<newline>'' (id' (heap w c))
      else if TrimSpace (parts ! 1) = []
      then Notify w c ''Nickname cannot be empty\<newline>'' (id' (heap w c))
      else broadcast
             (w\<lparr>heap := (heap w)(c := (heap w c)\<lparr>nick := TrimSpace (parts ! 1)\<rparr>),
                out := out w @ [LogPrint (''User '' @ itoa (id' (heap w c)) @
                  '' is now known as '' @ TrimSpace (parts ! 1) @ ''\<newline>'')]\<rparr>)
             (''User '' @ itoa (id' (heap w c)) @ '' is now known as '' @
                TrimSpace (parts ! 1) @ ''\<newline>'')
             (id' (heap w c)))"
  by (simp add: handleNickCommand_def Let_def)

lemma handleNickCommand_closed:
  "closed (conn (heap (handleNickCommand w c parts) p)) = closed (conn (heap w p))"
  by (simp add: handleNickCommand_effect Notify_closed broadcast_def broadcast_range_closed)

lemma handleCommand_closed:
  "closed (conn (heap (handleCommand U w c line) p)) = closed (conn (heap w p))"
  by (simp add: handleCommand_def Let_def Notify_closed handleNickCommand_closed
      broadcast_def broadcast_range_closed)

lemma handleNickCommand_not_welcomed:
  assumes "p \<noteq> c" and "welcomeMessage \<notin> set (sent (conn (heap w p)))"
  shows "welcomeMessage \<notin> set (sent (conn (heap (handleNickCommand w c parts) p)))"
proof (cases "length parts = 2 \<and> TrimSpace (parts ! 1) \<noteq> []")
  case False
  then show ?thesis
    using assms by (auto simp: handleNickCommand_effect Notify_other)
next
  case True
  define w1 where
    "w1 = w\<lparr>heap := (heap w)(c := (heap w c)\<lparr>nick := TrimSpace (parts ! 1)\<rparr>),
            out := out w @ [LogPrint (''User '' @ itoa (id' (heap w c)) @
              '' is now known as '' @ TrimSpace (parts ! 1) @ ''\<newline>'')]\<rparr>"
  have "welcomeMessage \<notin> set (sent (conn (heap w1 p)))"
    using assms by (simp add: w1_def)
  then have "welcomeMessage \<notin> set (sent (conn (heap
      (broadcast_range w1 (observers (chat w1))
         (''User '' @ itoa (id' (heap w c)) @ '' is now known as '' @
            TrimSpace (parts ! 1) @ ''\<newline>'') (id' (heap w c))) p)))"
    by (intro broadcast_range_not_sent nick_notice_not_welcome)
  then show ?thesis
    using True by (simp add: handleNickCommand_effect broadcast_def w1_def)
qed

lemma handleCommand_not_welcomed:
  assumes "p \<noteq> c" and "welcomeMessage \<notin> set (sent (conn (heap w p)))"
  shows "welcomeMessage \<notin> set (sent (conn (heap (handleCommand U w c line) p)))"
  using assms
  by (simp add: handleCommand_def Let_def Notify_other handleNickCommand_not_welcomed
      broadcast_def broadcast_range_not_sent displayMsg_not_welcome)


lemma listen_welcome_rest [simp]:
  "chat (listen_welcome w c) = chat w"
  "nalloc (listen_welcome w c) = nalloc w"
  "goroutine (listen_welcome w c) = goroutine w"
  "mainpc (listen_welcome w c) = mainpc w"
  by (simp_all add: listen_welcome_def split: sum.splits)

lemma step_turnedAway:
  assumes "step U w e = Some w'" and "turnedAway w p"
  shows "turnedAway w' p"
proof (cases e)
  case (Accept cn)
  then show ?thesis
    using assms by (auto simp: step_def turnedAway_def split: MainPC.splits)
next
  case MainRegister
  then show ?thesis
    using assms by (auto simp: step_def turnedAway_def main_defs split: MainPC.splits)
next
  case MainTest
  then show ?thesis
    using assms by (auto simp: step_def turnedAway_def main_defs split: MainPC.splits if_splits)
next
  case MainClose
  then show ?thesis
    using assms
    by (auto simp: step_def turnedAway_def main_defs Close_def split: MainPC.splits if_splits)
next
  case (Greet c)
  then have "goroutine w c = Some Spawned"
    and "w' = (listen_welcome w c)\<lparr>goroutine := (goroutine w)(c \<mapsto> Reading)\<rparr>"
    using assms(1) by (auto simp: step_def split: if_splits)
  moreover from this assms(2) have "c \<noteq> p" by (auto simp: turnedAway_def)
  ultimately show ?thesis
    using assms(2) by (auto simp: turnedAway_def listen_welcome_def split: sum.splits)
next
  case (ReadLine c msg)
  then have "goroutine w c = Some Reading"
    and w': "w' = handleCommand U w c (ReplaceAll1 msg (CHR 0x0D) [])"
    using assms(1) by (auto simp: step_def listen_line_def split: if_splits)
  moreover from this assms(2) have "p \<noteq> c" by (auto simp: turnedAway_def)
  ultimately show ?thesis
    using assms(2)
    by (simp add: turnedAway_def handleCommand_closed handleCommand_not_welcomed)
next
  case (ReadFail c eof)
  then have "goroutine w c = Some Reading"
    and "w' = (listen_exit w c eof)\<lparr>goroutine := (goroutine w)(c \<mapsto> Exited)\<rparr>"
    using assms(1) by (auto simp: step_def split: if_splits)
  moreover from this assms(2) have "c \<noteq> p" by (auto simp: turnedAway_def)
  ultimately show ?thesis
    using assms(2) by (auto simp: turnedAway_def listen_exit_def Let_def)
next
  case (Hangup c)
  then show ?thesis
    using assms by (auto simp: step_def turnedAway_def split: if_splits)
qed

lemma run_turnedAway:
  "run U w es = Some w' \<Longrightarrow> turnedAway w p \<Longrightarrow> turnedAway w' p"
proof (induction es arbitrary: w)
  case Nil
  then show ?case by simp
next
  case (Cons e es)
  then show ?case
    by (auto split: option.splits dest: step_turnedAway)
qed

lemma step_mainSound:
  assumes "step U w e = Some w'" and "mainSound w"
  shows "mainSound w'"
proof (cases e)
  case (Accept cn)
  then show ?thesis
    using assms by (auto simp: step_def mainSound_def split: MainPC.splits)
next
  case MainRegister
  then show ?thesis
    using assms by (auto simp: step_def mainSound_def main_defs split: MainPC.splits)
next
  case MainTest
  then show ?thesis
    using assms by (auto simp: step_def mainSound_def main_defs split: MainPC.splits if_splits)
next
  case MainClose
  then show ?thesis
    using assms by (auto simp: step_def mainSound_def main_defs split: MainPC.splits)
next
  case (Greet c)
  then show ?thesis
    using assms
    by (auto simp: step_def mainSound_def listen_welcome_def split: if_splits sum.splits)
next
  case (ReadLine c msg)
  then show ?thesis
    using assms by (auto simp: step_def mainSound_def listen_line_def split: if_splits)
next
  case (ReadFail c eof)
  then show ?thesis
    using assms by (auto simp: step_def mainSound_def listen_exit_def Let_def split: if_splits)
next
  case (Hangup c)
  then show ?thesis
    using assms by (auto simp: step_def mainSound_def)
qed

lemma run_mainSound: "run U w es = Some w' \<Longrightarrow> mainSound w \<Longrightarrow> mainSound w'"
proof (induction es arbitrary: w)
  case Nil
  then show ?case by simp
next
  case (Cons e es)
  then show ?case
    by (auto split: option.splits dest: step_mainSound)
qed

lemma reachable_mainSound: "run U initWorld es = Some w \<Longrightarrow> mainSound w"
  by (erule run_mainSound) (simp add: mainSound_def initWorld_def)

text \<open>
  The test finds the capacity exceeded whenever the population was at the maximum while the
  accept loop waited for the connection and no client has disconnected since.
\<close>

lemma listen_exit_mainpc [simp]: "mainpc (listen_exit w c eof) = mainpc w"
  by (simp add: listen_exit_def Let_def)

lemma step_population:
  assumes "step U w e = Some w'" and "\<not> isReadFail e"
  shows "population w' = (if e = MainRegister then Suc (population w) else population w)"
proof (cases e)
  case (Accept cn)
  then show ?thesis
    using assms(1) by (auto simp: step_def population_def split: MainPC.splits)
next
  case MainRegister
  then show ?thesis
    using assms(1)
    by (auto simp: step_def population_def main_register_def addObserver_def Let_def
        split: MainPC.splits)
next
  case MainTest
  then show ?thesis
    using assms(1)
    by (auto simp: step_def population_def main_start_def split: MainPC.splits if_splits)
next
  case MainClose
  then show ?thesis
    using assms(1) by (auto simp: step_def population_def main_reject_def split: MainPC.splits)
next
  case (Greet c)
  then show ?thesis
    using assms(1) by (auto simp: step_def population_def split: if_splits)
next
  case (ReadLine c msg)
  then show ?thesis
    using assms(1) by (auto simp: step_def population_def listen_line_def split: if_splits)
next
  case (ReadFail c eof)
  then show ?thesis using assms(2) by simp
next
  case (Hangup c)
  then show ?thesis
    using assms(1) by (auto simp: step_def population_def)
qed

lemma step_not_registered:
  assumes "step U w e = Some w'" and "e \<noteq> MainRegister" and "\<forall>p. mainpc w \<noteq> Registered p"
  shows "\<forall>p. mainpc w' \<noteq> Registered p"
proof (cases e)
  case (Accept cn)
  then show ?thesis
    using assms(1,3) by (auto simp: step_def split: MainPC.splits)
next
  case MainRegister
  then show ?thesis using assms(2) by simp
next
  case MainTest
  then show ?thesis
    using assms(1,3) by (auto simp: step_def split: MainPC.splits)
next
  case MainClose
  then show ?thesis
    using assms(1,3) by (auto simp: step_def split: MainPC.splits)
next
  case (Greet c)
  then show ?thesis
    using assms(1,3) by (auto simp: step_def split: if_splits)
next
  case (ReadLine c msg)
  then show ?thesis
    using assms(1,3) by (auto simp: step_def listen_line_def split: if_splits)
next
  case (ReadFail c eof)
  then show ?thesis
    using assms(1,3) by (auto simp: step_def split: if_splits)
next
  case (Hangup c)
  then show ?thesis
    using assms(1,3) by (auto simp: step_def)
qed

lemma run_population:
  "run U w es = Some w' \<Longrightarrow> list_all (\<lambda>e. \<not> isReadFail e) es \<Longrightarrow>
   population w \<le> population w' \<and> (MainRegister \<in> set es \<longrightarrow> population w < population w')"
proof (induction es arbitrary: w)
  case Nil
  then show ?case by simp
next
  case (Cons e es)
  from Cons.prems(1) obtain w1 where s: "step U w e = Some w1" and r: "run U w1 es = Some w'"
    by (auto split: option.splits)
  have "population w1 = (if e = MainRegister then Suc (population w) else population w)"
    using Cons.prems(2) by (intro step_population[OF s]) simp
  moreover have "population w1 \<le> population w' \<and>
      (MainRegister \<in> set es \<longrightarrow> population w1 < population w')"
  proof (rule Cons.IH[OF r])
    show "list_all (\<lambda>e. \<not> isReadFail e) es"
      using Cons.prems(2) by simp
  qed
  ultimately show ?case by (auto split: if_splits)
qed

lemma run_not_registered:
  "run U w es = Some w' \<Longrightarrow> MainRegister \<notin> set es \<Longrightarrow> \<forall>p. mainpc w \<noteq> Registered p \<Longrightarrow>
   \<forall>p. mainpc w' \<noteq> Registered p"
proof (induction es arbitrary: w)
  case Nil
  then show ?case by simp
next
  case (Cons e es)
  from Cons.prems(1) obtain w1 where s: "step U w e = Some w1" and r: "run U w1 es = Some w'"
    by (auto split: option.splits)
  have "e \<noteq> MainRegister" and rest: "MainRegister \<notin> set es"
    using Cons.prems(2) by auto
  then have "\<forall>p. mainpc w1 \<noteq> Registered p"
    using step_not_registered[OF s _ Cons.prems(3)] by blast
  with r rest show ?case
    by (rule Cons.IH)
qed

lemma full_at_accept_over_at_test:
  assumes "mainpc w0 = AtAccept" and "MaxClients \<le> population w0"
      and "run U w0 es = Some w" and "list_all (\<lambda>e. \<not> isReadFail e) es"
      and "mainpc w = Registered p"
  shows "MaxClients < length (observers (chat w))"
proof -
  have "MainRegister \<in> set es"
  proof (rule ccontr)
    assume "MainRegister \<notin> set es"
    moreover have "\<forall>q. mainpc w0 \<noteq> Registered q"
      using assms(1) by simp
    ultimately have "\<forall>q. mainpc w \<noteq> Registered q"
      using run_not_registered[OF assms(3)] by blast
    then show False using assms(5) by simp
  qed
  then have "population w0 < population w"
    using run_population[OF assms(3,4)] by simp
  then show ?thesis
    using assms(2) by (simp add: population_def)
qed

text \<open>
  Claim C8, as amended. When the accept loop comes to its capacity test for a newly
  registered client and finds more than \<open>MaxClients\<close> observers (the new one among them),
  the client is turned away for good: at no later time has it a \<open>listen\<close> goroutine, so
  neither the welcome nor a read takes place for it; the welcome text never reaches its
  connection; and the connection is closed by the accept loop's very next step, before
  which the loop accepts nothing, and stays closed. (Chat text broadcast by others before
  that step can still reach the connection.) By \<open>full_at_accept_over_at_test\<close> the test
  finds the capacity exceeded whenever the population was at the maximum when the accept
  loop waited for the connection and no client has disconnected since.
\<close>

theorem C8_over_capacity_at_test_closed_and_never_welcomed:
  assumes "run U initWorld es0 = Some w"
      and "mainpc w = Registered p"
      and "MaxClients < length (observers (chat w))"
      and "welcomeMessage \<notin> set (sent (conn (heap w p)))"
      and "run U w (MainTest # es) = Some w'"
  shows "goroutine w' p = None \<and>
         step U w' (Greet p) = None \<and>
         step U w' (ReadLine p line) = None \<and>
         welcomeMessage \<notin> set (sent (conn (heap w' p))) \<and>
         (mainpc w' = Rejecting p \<or> closed (conn (heap w' p))) \<and>
         (mainpc w' = Rejecting p \<longrightarrow>
            step U w' (Accept cn) = None \<and>
            step U w' MainClose = Some ((main_reject w' p)\<lparr>mainpc := AtAccept\<rparr>) \<and>
            closed (conn (heap (main_reject w' p) p)))"
proof -
  have "mainSound w"
    using assms(1) by (rule reachable_mainSound)
  then have p: "p < nalloc w" "goroutine w p = None"
    using assms(2) by (auto simp: mainSound_def)
  have s: "step U w MainTest = Some (w\<lparr>mainpc := Rejecting p\<rparr>)"
    using assms(2,3) by (simp add: step_def main_overCapacity_def)
  then have r: "run U (w\<lparr>mainpc := Rejecting p\<rparr>) es = Some w'"
    using assms(5) by simp
  have "turnedAway (w\<lparr>mainpc := Rejecting p\<rparr>) p"
    using p assms(4) by (simp add: turnedAway_def)
  with r have "turnedAway w' p"
    by (rule run_turnedAway)
  then show ?thesis
    by (auto simp: turnedAway_def step_def main_reject_def Close_def)
qed


lemma MaxClients_pos: "0 < MaxClients"
  by (simp add: MaxClients_def)

lemma fillUp_reached: "run U initWorld fillUp = Some (main_loop initWorld (replicate MaxClients newConn))"
  unfolding fillUp_def by (rule main_loop_reached) simp

lemma full_then_registered:
  "run U (main_loop initWorld (replicate MaxClients newConn)) [Accept newConn, MainRegister] =
     Some ((main_register (main_loop initWorld (replicate MaxClients newConn)) newConn
             (int MaxClients + 1))\<lparr>mainpc := Registered MaxClients\<rparr>)"
  by (simp add: step_def main_loop_mainpc main_loop_nalloc main_loop_observers
      generateClientID_def main_register_def Let_def)

theorem C8_witness:
  "run asciiOnly initWorld
     (fillUp @ [Accept newConn, MainRegister, MainTest, Greet 0, ReadLine 0 ''hi\<newline>'', MainClose])
     \<noteq> None \<and>
   goroutine (the (run asciiOnly initWorld
     (fillUp @ [Accept newConn, MainRegister, MainTest, Greet 0, ReadLine 0 ''hi\<newline>'', MainClose])))
     MaxClients = None \<and>
   closed (conn (heap (the (run asciiOnly initWorld
     (fillUp @ [Accept newConn, MainRegister, MainTest, Greet 0, ReadLine 0 ''hi\<newline>'', MainClose])))
     MaxClients)) \<and>
   welcomeMessage \<notin> set (sent (conn (heap (the (run asciiOnly initWorld
     (fillUp @ [Accept newConn, MainRegister, MainTest, Greet 0, ReadLine 0 ''hi\<newline>'', MainClose])))
     MaxClients)))"
proof -
  let ?W = "main_loop initWorld (replicate MaxClients newConn)"
  define w where
    "w = (main_register ?W newConn (int MaxClients + 1))\<lparr>mainpc := Registered MaxClients\<rparr>"
  let ?es = "[Greet 0, ReadLine 0 ''hi\<newline>'', MainClose]"
  have reach: "run asciiOnly initWorld (fillUp @ [Accept newConn, MainRegister]) = Some w"
    by (simp only: run_append fillUp_reached full_then_registered w_def option.case)
  have pc: "mainpc w = Registered MaxClients"
    by (simp add: w_def)
  have over: "MaxClients < length (observers (chat w))"
    by (simp add: w_def main_register_def Let_def addObserver_def main_loop_observers)
  have fresh: "welcomeMessage \<notin> set (sent (conn (heap w MaxClients)))"
    by (simp add: w_def main_register_def Let_def main_loop_nalloc newConn_def)
  have g0: "goroutine w 0 = Some Spawned"
    by (simp add: w_def main_register_def Let_def main_loop_goroutine MaxClients_pos)
  define w1 where "w1 = w\<lparr>mainpc := Rejecting MaxClients\<rparr>"
  define w2 where "w2 = (listen_welcome w1 0)\<lparr>goroutine := (goroutine w1)(0 \<mapsto> Reading)\<rparr>"
  define w3 where "w3 = listen_line asciiOnly w2 0 ''hi\<newline>''"
  define w' where "w' = (main_reject w3 MaxClients)\<lparr>mainpc := AtAccept\<rparr>"
  have s1: "step asciiOnly w MainTest = Some w1"
    using pc over by (simp add: step_def main_overCapacity_def w1_def)
  have s2: "step asciiOnly w1 (Greet 0) = Some w2"
    using g0 by (simp add: step_def w1_def w2_def)
  have s3: "step asciiOnly w2 (ReadLine 0 ''hi\<newline>'') = Some w3"
    by (simp add: step_def w2_def w3_def)
  have "mainpc w3 = Rejecting MaxClients"
    by (simp add: w3_def listen_line_def w2_def w1_def)
  then have s4: "step asciiOnly w3 MainClose = Some w'"
    by (simp add: step_def w'_def)
  have r: "run asciiOnly w (MainTest # ?es) = Some w'"
    by (simp add: s1 s2 s3 s4)
  have idle: "mainpc w' = AtAccept"
    by (simp add: w'_def)
  have "fillUp @ [Accept newConn, MainRegister, MainTest, Greet 0, ReadLine 0 ''hi\<newline>'', MainClose] =
      (fillUp @ [Accept newConn, MainRegister]) @ MainTest # ?es"
    by simp
  then have all: "run asciiOnly initWorld
      (fillUp @ [Accept newConn, MainRegister, MainTest, Greet 0, ReadLine 0 ''hi\<newline>'', MainClose]) =
      Some w'"
    using reach r by (simp only: run_append option.case)
  show ?thesis
    using C8_over_capacity_at_test_closed_and_never_welcomed[OF reach pc over fresh r] idle
    by (simp add: all)
qed

text \<open>
  The claim as it is stated fails. The population is at the maximum when one more
  connection arrives; its client is registered; before the accept loop tests the capacity,
  another client disconnects. The test then finds \<open>MaxClients\<close> observers, the connection
  is let in, its \<open>listen\<close> goroutine starts and sends it the welcome text.
\<close>

theorem C8_admitted_after_disconnect_counterexample:
  "map_option population (run asciiOnly initWorld fillUp) = Some MaxClients \<and>
   map_option (clientView MaxClients)
     (run asciiOnly initWorld
        (fillUp @ [Accept newConn, MainRegister, Greet 0, ReadFail 0 True, MainTest,
                   Greet MaxClients])) =
     Some (Some Reading, False, [welcomeMessage])"
proof -
  let ?W = "main_loop initWorld (replicate MaxClients newConn)"
  have len: "length (removeFirst 0 ([0..<MaxClients] @ [MaxClients])) = MaxClients"
    using MaxClients_pos by (simp add: upt_conv_Cons)
  have ne: "MaxClients \<noteq> 0"
    using MaxClients_pos by simp
  have "map_option (clientView MaxClients)
      (run asciiOnly ?W [Accept newConn, MainRegister, Greet 0, ReadFail 0 True, MainTest,
                        Greet MaxClients]) =
      Some (Some Reading, False, [welcomeMessage])"
    using len ne
    by (simp add: step_def main_loop_mainpc main_loop_nalloc main_loop_observers
        main_loop_goroutine MaxClients_pos main_defs listen_welcome_def listen_exit_def
        removeObserver_def Write_def Close_def newConn_def clientView_def
        split: sum.splits)
  then show ?thesis
    by (simp only: run_append fillUp_reached option.case)
       (simp add: main_loop_observers population_def)
qed

section \<open>Lines are trimmed first\<close>

text \<open>
  Claim C9. \<open>handleCommand\<close> looks at the trimmed line only: the line is its trimmed form
  with white-space runes before and after it, and the trimmed form neither begins nor ends
  with one. A line of white space alone changes nothing, as an empty line does. White space
  before the command prefix does not hide it: the trimmed line still begins with \<open>/\<close> and
  is handled as the line without that white space is. The text broadcast for a chat line is
  built from the trimmed line, so none of the surrounding white space is in it.
\<close>

theorem C9_lines_are_trimmed_before_interpretation:
  "handleCommand U w S line = handleCommand U w S (TrimSpace line) \<and>
   (\<exists>ls rs. set ls \<subseteq> set whiteSpace \<and> set rs \<subseteq> set whiteSpace \<and>
            line = concat ls @ TrimSpace line @ concat rs) \<and>
   \<not> startsWithSpace (TrimSpace line) \<and> \<not> endsWithSpace (TrimSpace line) \<and>
   (set ws \<subseteq> set whiteSpace \<longrightarrow> handleCommand U w S (concat ws) = w) \<and>
   (set ws \<subseteq> set whiteSpace \<longrightarrow>
      HasPrefix (TrimSpace (concat ws @ CHR ''/'' # rest)) ''/'' \<and>
      handleCommand U w S (concat ws @ CHR ''/'' # rest) =
        handleCommand U w S (CHR ''/'' # rest)) \<and>
   (TrimSpace line \<noteq> [] \<and> \<not> HasPrefix (TrimSpace line) ''/'' \<longrightarrow>
      handleCommand U w S line =
        broadcast w (displayMsg (heap w S) (TrimSpace line)) (id' (heap w S)))"
proof (intro conjI impI)
  show "handleCommand U w S line = handleCommand U w S (TrimSpace line)"
    by (simp add: handleCommand_def TrimSpace_idem)
  show "\<exists>ls rs. set ls \<subseteq> set whiteSpace \<and> set rs \<subseteq> set whiteSpace \<and>
          line = concat ls @ TrimSpace line @ concat rs"
    by (rule TrimSpace_split)
  show "\<not> startsWithSpace (TrimSpace line)" and "\<not> endsWithSpace (TrimSpace line)"
    using TrimSpace_no_space[of line] by simp_all
next
  assume "set ws \<subseteq> set whiteSpace"
  then show "handleCommand U w S (concat ws) = w"
    by (simp add: handleCommand_def TrimSpace_white)
next
  assume ws: "set ws \<subseteq> set whiteSpace"
  show "HasPrefix (TrimSpace (concat ws @ CHR ''/'' # rest)) ''/''"
    by (simp only: TrimSpace_leading[OF ws] TrimSpace_slash)
  show "handleCommand U w S (concat ws @ CHR ''/'' # rest) =
      handleCommand U w S (CHR ''/'' # rest)"
    by (simp add: handleCommand_def TrimSpace_leading[OF ws])
next
  assume "TrimSpace line \<noteq> [] \<and> \<not> HasPrefix (TrimSpace line) ''/''"
  then show "handleCommand U w S line =
      broadcast w (displayMsg (heap w S) (TrimSpace line)) (id' (heap w S))"
    by (simp add: handleCommand_plain)
qed

lemma TrimSpace_hi_there: "TrimSpace ''  hi there  \<newline>'' = ''hi there''"
  by (simp add: TrimSpace_def TrimLeftSpace_def TrimRightSpace_def trimPrefixes.simps
      whiteSpace_def asciiSpace_def)

theorem C9_witness:
  "handleCommand asciiOnly demoWorld 1 ''   \<newline>'' = demoWorld \<and>
   handleCommand asciiOnly demoWorld 0 ''  /nick bob'' =
     handleCommand asciiOnly demoWorld 0 ''/nick bob'' \<and>
   nick (heap (handleCommand asciiOnly demoWorld 0 ''  /nick bob'') 0) = ''bob'' \<and>
   sent (conn (heap (handleCommand asciiOnly demoWorld 1 ''  hi there  \<newline>'') 0)) =
     [''X> hi there\<newline>'']"
proof -
  have blank: "handleCommand asciiOnly demoWorld 1 (concat ['' '', '' '', '' '', ''\<newline>'']) =
      demoWorld"
    using C9_lines_are_trimmed_before_interpretation
            [of asciiOnly demoWorld 1 "''  hi there  \<newline>''" "['' '', '' '', '' '', ''\<newline>'']"
                "''nick bob''"]
    by (simp add: whiteSpace_def asciiSpace_def)
  have cmd: "handleCommand asciiOnly demoWorld 0 (concat ['' '', '' ''] @ ''/nick bob'') =
      handleCommand asciiOnly demoWorld 0 ''/nick bob''"
    using C9_lines_are_trimmed_before_interpretation
            [of asciiOnly demoWorld 0 "''  hi there  \<newline>''" "['' '', '' '']" "''nick bob''"]
    by (simp add: whiteSpace_def asciiSpace_def)
  have "TrimSpace ''/nick bob'' = ''/nick'' @ '' '' @ ''bob''"
    by (simp add: TrimSpace_def TrimLeftSpace_def TrimRightSpace_def trimPrefixes.simps
        whiteSpace_def asciiSpace_def)
  then have "handleCommand asciiOnly demoWorld 0 ''/nick bob'' =
      handleNickCommand demoWorld 0 [''/nick'', ''bob'']"
    by (rule handleCommand_nick) (simp_all add: HasPrefix_def ToLower_nick)
  then have name: "nick (heap (handleCommand asciiOnly demoWorld 0 ''/nick bob'') 0) = ''bob''"
    by (simp add: handleNickCommand_nick[OF TrimSpace_bob])
  have "handleCommand asciiOnly demoWorld 1 ''  hi there  \<newline>'' =
      broadcast demoWorld (displayMsg (heap demoWorld 1) ''hi there'') (id' (heap demoWorld 1))"
    using C9_lines_are_trimmed_before_interpretation
            [of asciiOnly demoWorld 1 "''  hi there  \<newline>''" "[]" "[]"]
    by (auto simp: TrimSpace_hi_there HasPrefix_def)
  then have chat: "sent (conn (heap (handleCommand asciiOnly demoWorld 1 ''  hi there  \<newline>'') 0)) =
      [''X> hi there\<newline>'']"
    by (simp add: broadcast_def displayMsg_def Notify_heap deliver_def demoWorld_def
        newConn_def canWrite_def)
  from blank cmd name chat show ?thesis by simp
qed

section \<open>Reachable states\<close>

text \<open>
  In every state the server reaches, the observers are distinct clients that exist: the
  hypothesis \<open>distinct\<close> of the statements on broadcasts holds there.
\<close>

lemma removeFirst_subset: "set (removeFirst x xs) \<subseteq> set xs"
  by (induction xs) auto

lemma removeFirst_distinct: "distinct xs \<Longrightarrow> distinct (removeFirst x xs)"
proof (induction xs)
  case Nil
  then show ?case by simp
next
  case (Cons y ys)
  then show ?case using removeFirst_subset[of x ys] by auto
qed

lemma step_registered:
  assumes "step U w e = Some w'"
      and "distinct (observers (chat w)) \<and> (\<forall>p\<in>set (observers (chat w)). p < nalloc w)"
  shows "distinct (observers (chat w')) \<and> (\<forall>p\<in>set (observers (chat w')). p < nalloc w')"
proof (cases e)
  case (Accept cn)
  then show ?thesis
    using assms by (auto simp: step_def split: MainPC.splits)
next
  case MainRegister
  then show ?thesis
    using assms by (fastforce simp: step_def main_defs less_Suc_eq split: MainPC.splits)
next
  case MainTest
  then show ?thesis
    using assms by (auto simp: step_def main_defs split: MainPC.splits if_splits)
next
  case MainClose
  then show ?thesis
    using assms by (auto simp: step_def main_defs split: MainPC.splits)
next
  case (Greet c)
  then show ?thesis
    using assms by (auto simp: step_def split: if_splits)
next
  case (ReadLine c msg)
  then show ?thesis
    using assms by (auto simp: step_def listen_line_def split: if_splits)
next
  case (ReadFail c eof)
  then have "observers (chat w') = removeFirst c (observers (chat w))" and "nalloc w' = nalloc w"
    using assms(1) by (auto simp: step_def listen_exit_def removeObserver_def Let_def split: if_splits)
  then show ?thesis
    using assms(2) removeFirst_subset[of c "observers (chat w)"]
    by (auto simp: removeFirst_distinct)
next
  case (Hangup c)
  then show ?thesis
    using assms by (auto simp: step_def)
qed

lemma run_registered:
  "run U w es = Some w' \<Longrightarrow>
   distinct (observers (chat w)) \<and> (\<forall>p\<in>set (observers (chat w)). p < nalloc w) \<Longrightarrow>
   distinct (observers (chat w')) \<and> (\<forall>p\<in>set (observers (chat w')). p < nalloc w')"
proof (induction es arbitrary: w)
  case Nil
  then show ?case by simp
next
  case (Cons e es)
  from Cons.prems(1) obtain w1 where s: "step U w e = Some w1" and r: "run U w1 es = Some w'"
    by (auto split: option.splits)
  from step_registered[OF s Cons.prems(2)] Cons.IH[OF r] show ?case by blast
qed

lemma reachable_distinct:
  "run U initWorld es = Some w \<Longrightarrow> distinct (observers (chat w))"
  using run_registered[of U initWorld es w] by (simp add: initWorld_def)

end
